theory Spec2Isabelle
  imports Main "HOL-Library.Sublist"
begin

section \<open>Strings of the extractor\<close>

text \<open>
  The extractor of \<^verbatim>\<open>src/extractor.js\<close> works on JavaScript strings. A string is
  modelled as a \<^typ>\<open>string\<close>, one \<^typ>\<open>char\<close> per code unit, so the model covers the
  strings whose code units are below 256. The character sets below are the ones the
  regular expressions and \<^verbatim>\<open>String.prototype.trim\<close> use on that range.
\<close>

definition az :: string where
  "az = ''abcdefghijklmnopqrstuvwxyz''"

definition AZ :: string where
  "AZ = ''ABCDEFGHIJKLMNOPQRSTUVWXYZ''"

definition d09 :: string where
  "d09 = ''0123456789''"

definition wordChars :: string where
  \<comment> \<open>the class \<^verbatim>\<open>\w\<close>\<close>
  "wordChars = az @ AZ @ d09 @ ''_''"

definition lineTerminators :: string where
  \<comment> \<open>the characters \<^verbatim>\<open>.\<close> does not match: line feed and carriage return\<close>
  "lineTerminators = [CHR 0x0A, CHR 0x0D]"

definition whiteSpace :: string where
  \<comment> \<open>the class \<^verbatim>\<open>\s\<close>, which is also what \<^verbatim>\<open>trim\<close> strips: tab, line feed,
      vertical tab, form feed, carriage return, space, no-break space\<close>
  "whiteSpace = [CHR 0x09, CHR 0x0A, CHR 0x0B, CHR 0x0C, CHR 0x0D, CHR 0x20, CHR 0xA0]"

definition trim :: "string \<Rightarrow> string" where
  "trim s = rev (dropWhile (\<lambda>c. c \<in> set whiteSpace) (rev (dropWhile (\<lambda>c. c \<in> set whiteSpace) s)))"

fun includesStr :: "string \<Rightarrow> string \<Rightarrow> bool" where
  \<comment> \<open>\<^verbatim>\<open>s.includes(sub)\<close>\<close>
  "includesStr [] sub = (sub = [])"
| "includesStr (c # cs) sub = (prefix sub (c # cs) \<or> includesStr cs sub)"


section \<open>Regular expressions\<close>

text \<open>
  The patterns of the source use literals, character classes, concatenation,
  alternation, \<^verbatim>\<open>*\<close>, \<^verbatim>\<open>+\<close>, \<^verbatim>\<open>?\<close>, bounded repetition and the anchors
  \<^verbatim>\<open>^\<close> and \<^verbatim>\<open>$\<close>; none has a capture that is read, a back-reference, a
  look-around or the flags \<^verbatim>\<open>m\<close> and \<^verbatim>\<open>s\<close>. For such a pattern
  \<^verbatim>\<open>re.test(s)\<close> is language membership of some substring of \<^verbatim>\<open>s\<close>.
\<close>

datatype rx =
    Fail                  \<comment> \<open>matches nothing\<close>
  | Empty                 \<comment> \<open>matches the empty string\<close>
  | OneOf string          \<comment> \<open>a class \<^verbatim>\<open>[...]\<close>: one character of the list\<close>
  | NoneOf string         \<comment> \<open>a class \<^verbatim>\<open>[^...]\<close>: one character not in the list\<close>
  | Cat rx rx
  | Or rx rx
  | Many rx               \<comment> \<open>\<^verbatim>\<open>r*\<close>\<close>

definition Some1 :: "rx \<Rightarrow> rx" where
  \<comment> \<open>\<^verbatim>\<open>r+\<close>\<close>
  "Some1 r = Cat r (Many r)"

definition Maybe :: "rx \<Rightarrow> rx" where
  \<comment> \<open>\<^verbatim>\<open>r?\<close>\<close>
  "Maybe r = Or r Empty"

definition dot :: rx where
  \<comment> \<open>\<^verbatim>\<open>.\<close>\<close>
  "dot = NoneOf lineTerminators"

definition anyChar :: rx where
  "anyChar = NoneOf []"

definition seq :: "rx list \<Rightarrow> rx" where
  "seq rs = foldr Cat rs Empty"

definition alt :: "rx list \<Rightarrow> rx" where
  "alt rs = foldr Or rs Fail"

definition lit :: "string \<Rightarrow> rx" where
  \<comment> \<open>a literal\<close>
  "lit s = seq (map (\<lambda>c. OneOf [c]) s)"

definition toLowerChar :: "char \<Rightarrow> char" where
  \<comment> \<open>case mapping of the letters A to Z, which is all the flag \<^verbatim>\<open>i\<close> does on
      the patterns of the source. \<^verbatim>\<open>toLowerCase\<close> and \<^verbatim>\<open>toUpperCase\<close> also map
      accented letters; the model leaves them as they are, which changes no slug (the key
      generator drops every character outside \<^verbatim>\<open>[a-zA-Z0-9\s]\<close> after lowering)
      and only the spelling of a component context taken from such a file name\<close>
  "toLowerChar c = (case map_of (zip AZ az) c of Some l \<Rightarrow> l | None \<Rightarrow> c)"

definition toUpperChar :: "char \<Rightarrow> char" where
  "toUpperChar c = (case map_of (zip az AZ) c of Some u \<Rightarrow> u | None \<Rightarrow> c)"

definition lit_i :: "string \<Rightarrow> rx" where
  \<comment> \<open>a literal under the flag \<^verbatim>\<open>i\<close>\<close>
  "lit_i s = seq (map (\<lambda>c. OneOf [toLowerChar c, toUpperChar c]) s)"

fun nullable :: "rx \<Rightarrow> bool" where
  "nullable Fail = False"
| "nullable Empty = True"
| "nullable (OneOf cs) = False"
| "nullable (NoneOf cs) = False"
| "nullable (Cat r s) = (nullable r \<and> nullable s)"
| "nullable (Or r s) = (nullable r \<or> nullable s)"
| "nullable (Many r) = True"

fun cat :: "rx \<Rightarrow> rx \<Rightarrow> rx" where
  "cat Fail s = Fail"
| "cat Empty s = s"
| "cat r s = Cat r s"

fun or :: "rx \<Rightarrow> rx \<Rightarrow> rx" where
  "or Fail s = s"
| "or r Fail = r"
| "or r s = Or r s"

fun deriv :: "char \<Rightarrow> rx \<Rightarrow> rx" where
  "deriv c Fail = Fail"
| "deriv c Empty = Fail"
| "deriv c (OneOf cs) = (if c \<in> set cs then Empty else Fail)"
| "deriv c (NoneOf cs) = (if c \<in> set cs then Fail else Empty)"
| "deriv c (Cat r s) =
     (if nullable r then or (cat (deriv c r) s) (deriv c s) else cat (deriv c r) s)"
| "deriv c (Or r s) = or (deriv c r) (deriv c s)"
| "deriv c (Many r) = cat (deriv c r) (Many r)"

fun accepts :: "rx \<Rightarrow> string \<Rightarrow> bool" where
  "accepts r [] = nullable r"
| "accepts r (c # cs) = accepts (deriv c r) cs"

datatype regexp =
    Whole rx      \<comment> \<open>\<^verbatim>\<open>/^r$/\<close>\<close>
  | Starts rx     \<comment> \<open>\<^verbatim>\<open>/^r/\<close>\<close>
  | Ends rx       \<comment> \<open>\<^verbatim>\<open>/r$/\<close>\<close>
  | Within rx     \<comment> \<open>\<^verbatim>\<open>/r/\<close>\<close>

fun test :: "regexp \<Rightarrow> string \<Rightarrow> bool" where
  \<comment> \<open>\<^verbatim>\<open>re.test(s)\<close>\<close>
  "test (Whole r) s = accepts r s"
| "test (Starts r) s = accepts (Cat r (Many anyChar)) s"
| "test (Ends r) s = accepts (Cat (Many anyChar) r) s"
| "test (Within r) s = accepts (Cat (Many anyChar) (Cat r (Many anyChar))) s"


subsection \<open>The language of a pattern\<close>

inductive_set star :: "string set \<Rightarrow> string set" for A :: "string set" where
  star_nil: "[] \<in> star A"
| star_app: "u \<in> A \<Longrightarrow> v \<in> star A \<Longrightarrow> u @ v \<in> star A"

fun lang :: "rx \<Rightarrow> string set" where
  "lang Fail = {}"
| "lang Empty = {[]}"
| "lang (OneOf cs) = {[c] | c. c \<in> set cs}"
| "lang (NoneOf cs) = {[c] | c. c \<notin> set cs}"
| "lang (Cat r s) = {u @ v | u v. u \<in> lang r \<and> v \<in> lang s}"
| "lang (Or r s) = lang r \<union> lang s"
| "lang (Many r) = star (lang r)"


section \<open>The text classifier\<close>

record ClassificationContext =
  isImport :: bool
  isRequire :: bool
  isDecorator :: bool
  isComponentDecorator :: bool
  isConsole :: bool
  isThrow :: bool

definition isCodeIdentifier :: "string \<Rightarrow> bool" where
  "isCodeIdentifier text =
     (test (Whole (Cat (OneOf (az @ AZ @ ''_$'')) (Many (OneOf (az @ AZ @ d09 @ ''_$''))))) text \<and>
      \<not> test (Whole (alt (map lit_i [''error'', ''warning'', ''info'', ''success'', ''message'',
             ''title'', ''name'', ''label'', ''button'', ''link'', ''text'', ''content'']))) text)"

definition technicalPatterns :: "regexp list" where
  \<open>technicalPatterns = [
     \<comment> \<open>\<^verbatim>\<open>/undefined|null|NaN|TypeError|ReferenceError/\<close>\<close>
     Within (alt (map lit [''undefined'', ''null'', ''NaN'', ''TypeError'', ''ReferenceError''])),
     \<comment> \<open>\<^verbatim>\<open>/failed to|cannot|unable to.*\w+\(\)/\<close>\<close>
     Within (alt [lit ''failed to'', lit ''cannot'',
                  seq [lit ''unable to'', Many dot, Some1 (OneOf wordChars), lit ''()'']]),
     \<comment> \<open>\<^verbatim>\<open>/^[A-Z_][A-Z0-9_]*$/\<close>\<close>
     Whole (Cat (OneOf (AZ @ ''_'')) (Many (OneOf (AZ @ d09 @ ''_'')))),
     \<comment> \<open>\<^verbatim>\<open>/\w+\.\w+|\w+\(\)/\<close>\<close>
     Within (alt [seq [Some1 (OneOf wordChars), lit ''.'', Some1 (OneOf wordChars)],
                  seq [Some1 (OneOf wordChars), lit ''()'']])]\<close>

definition isUserFacingErrorMessage :: "string \<Rightarrow> bool" where
  "isUserFacingErrorMessage text =
     (\<not> list_ex (\<lambda>pattern. test pattern text) technicalPatterns \<and>
      length text > 10 \<and>
      test (Within (seq [OneOf az, Many dot, OneOf az])) text)"

definition isExcluded :: "string \<Rightarrow> bool" where
  "isExcluded text =
     (let trimmed = trim text in
      length trimmed = 0 \<or>
      length trimmed < 2 \<or>
      test (Whole (Many (OneOf whiteSpace))) trimmed \<or>
      test (Whole (Some1 (OneOf (d09 @ whiteSpace @ ''-_.,;:!?()[]{}'')))) trimmed)"

definition packagePatterns :: "regexp list" where
  \<open>packagePatterns = [
     \<comment> \<open>\<^verbatim>\<open>/^@[\w-]+\/[\w-]+$/\<close>\<close>
     Whole (seq [lit ''@'', Some1 (OneOf (wordChars @ ''-'')), lit ''/'', Some1 (OneOf (wordChars @ ''-''))]),
     \<comment> \<open>\<^verbatim>\<open>/^[\w-]+\/[\w-]+$/\<close>\<close>
     Whole (seq [Some1 (OneOf (wordChars @ ''-'')), lit ''/'', Some1 (OneOf (wordChars @ ''-''))])]\<close>

definition pathPatterns :: "regexp list" where
  \<open>pathPatterns = [
     \<comment> \<open>\<^verbatim>\<open>/^https?:\/\//\<close>\<close>
     Starts (seq [lit ''http'', Maybe (lit ''s''), lit ''://'']),
     \<comment> \<open>\<^verbatim>\<open>/^ftp:\/\//\<close>\<close>
     Starts (lit ''ftp://''),
     \<comment> \<open>\<^verbatim>\<open>/^file:\/\//\<close>\<close>
     Starts (lit ''file://''),
     \<comment> \<open>\<^verbatim>\<open>/^\w+:\/\//\<close>\<close>
     Starts (seq [Some1 (OneOf wordChars), lit ''://'']),
     \<comment> \<open>\<^verbatim>\<open>/^\/[\/\w.-]*$/\<close>\<close>
     Whole (seq [lit ''/'', Many (OneOf (''/'' @ wordChars @ ''.-''))]),
     \<comment> \<open>\<^verbatim>\<open>/^\.{1,2}\/[\/\w.-]*$/\<close>\<close>
     Whole (seq [lit ''.'', Maybe (lit ''.''), lit ''/'', Many (OneOf (''/'' @ wordChars @ ''.-''))]),
     \<comment> \<open>\<^verbatim>\<open>/^[a-zA-Z]:[\\\/]/\<close>\<close>
     Starts (seq [OneOf (az @ AZ), lit '':'', OneOf [CHR 0x5C, CHR ''/'']]),
     \<comment> \<open>\<^verbatim>\<open>/^~\//\<close>\<close>
     Starts (lit ''~/''),
     \<comment> \<open>\<^verbatim>\<open>/\.(js|ts|html|css|scss|json|xml|yml|yaml)$/i\<close>\<close>
     Ends (seq [lit ''.'', alt (map lit_i [''js'', ''ts'', ''html'', ''css'', ''scss'', ''json'',
                                          ''xml'', ''yml'', ''yaml''])]),
     \<comment> \<open>\<^verbatim>\<open>/\/api\//\<close>\<close>
     Within (lit ''/api/''),
     \<comment> \<open>\<^verbatim>\<open>/\/assets\//\<close>\<close>
     Within (lit ''/assets/''),
     \<comment> \<open>\<^verbatim>\<open>/^\.\/.*\.(js|ts|html|css)$/\<close>\<close>
     Whole (seq [lit ''./'', Many dot, lit ''.'', alt (map lit [''js'', ''ts'', ''html'', ''css''])])]\<close>

definition identifierPatterns :: "regexp list" where
  \<open>identifierPatterns = [
     \<comment> \<open>\<^verbatim>\<open>/^[a-zA-Z_$][a-zA-Z0-9_$]*$/\<close>\<close>
     Whole (Cat (OneOf (az @ AZ @ ''_$'')) (Many (OneOf (az @ AZ @ d09 @ ''_$'')))),
     \<comment> \<open>\<^verbatim>\<open>/^[A-Z_][A-Z0-9_]*$/\<close>\<close>
     Whole (Cat (OneOf (AZ @ ''_'')) (Many (OneOf (AZ @ d09 @ ''_'')))),
     \<comment> \<open>\<^verbatim>\<open>/^\w+\.\w+/\<close>\<close>
     Starts (seq [Some1 (OneOf wordChars), lit ''.'', Some1 (OneOf wordChars)]),
     \<comment> \<open>\<^verbatim>\<open>/^app-[\w-]+$/\<close>\<close>
     Whole (seq [lit ''app-'', Some1 (OneOf (wordChars @ ''-''))])]\<close>

definition interpolationPatterns :: "regexp list" where
  \<open>interpolationPatterns = [
     \<comment> \<open>\<^verbatim>\<open>/^\{\{.*\}\}$/\<close>\<close>
     Whole (seq [lit ''{{'', Many dot, lit ''}}'']),
     \<comment> \<open>\<^verbatim>\<open>/^\$\{.*\}$/\<close>\<close>
     Whole (seq [lit ''${'', Many dot, lit ''}''])]\<close>

definition technicalStringPatterns :: "regexp list" where
  \<open>technicalStringPatterns = [
     \<comment> \<open>\<^verbatim>\<open>/^\d+$/\<close>\<close>
     Whole (Some1 (OneOf d09)),
     \<comment> \<open>\<^verbatim>\<open>/^#[0-9a-fA-F]+$/\<close>\<close>
     Whole (seq [lit ''#'', Some1 (OneOf (d09 @ ''abcdef'' @ ''ABCDEF''))]),
     \<comment> \<open>\<^verbatim>\<open>/^[a-zA-Z]+:[a-zA-Z0-9-]+$/\<close>\<close>
     Whole (seq [Some1 (OneOf (az @ AZ)), lit '':'', Some1 (OneOf (az @ AZ @ d09 @ ''-''))]),
     \<comment> \<open>\<^verbatim>\<open>/^[\w-]+\.[\w-]+$/\<close>\<close>
     Whole (seq [Some1 (OneOf (wordChars @ ''-'')), lit ''.'', Some1 (OneOf (wordChars @ ''-''))])]\<close>

definition angularPatterns :: "regexp list" where
  \<open>angularPatterns = [
     \<comment> \<open>\<^verbatim>\<open>/^ng[A-Z]/\<close>\<close>
     Starts (seq [lit ''ng'', OneOf AZ]),
     \<comment> \<open>\<^verbatim>\<open>/Component$|Service$|Directive$|Pipe$|Guard$|Resolver$|Module$/\<close>: every
         branch ends at the end of the string\<close>
     Ends (alt (map lit [''Component'', ''Service'', ''Directive'', ''Pipe'', ''Guard'',
                         ''Resolver'', ''Module''])),
     \<comment> \<open>\<^verbatim>\<open>/^(app|src)\//\<close>\<close>
     Starts (seq [alt [lit ''app'', lit ''src''], lit ''/''])]\<close>

definition constantPatterns :: "regexp list" where
  \<open>constantPatterns = [
     \<comment> \<open>\<^verbatim>\<open>/^(utf-8|utf8|ascii|base64|json|xml|html|css|js|ts)$/i\<close>\<close>
     Whole (alt (map lit_i [''utf-8'', ''utf8'', ''ascii'', ''base64'', ''json'', ''xml'', ''html'',
                            ''css'', ''js'', ''ts''])),
     \<comment> \<open>\<^verbatim>\<open>/^(GET|POST|PUT|DELETE|PATCH|HEAD|OPTIONS)$/\<close>\<close>
     Whole (alt (map lit [''GET'', ''POST'', ''PUT'', ''DELETE'', ''PATCH'', ''HEAD'', ''OPTIONS''])),
     \<comment> \<open>\<^verbatim>\<open>/^(localhost|127\.0\.0\.1)/\<close>\<close>
     Starts (alt [lit ''localhost'', lit ''127.0.0.1''])]\<close>

definition versionPatterns :: "regexp list" where
  \<open>versionPatterns = [
     \<comment> \<open>\<^verbatim>\<open>/^\d+\.\d+(\.\d+)?/\<close>\<close>
     Starts (seq [Some1 (OneOf d09), lit ''.'', Some1 (OneOf d09),
                  Maybe (seq [lit ''.'', Some1 (OneOf d09)])]),
     \<comment> \<open>\<^verbatim>\<open>/^[a-f0-9]{8,}$/\<close>\<close>
     Whole (seq (replicate 8 (OneOf (''abcdef'' @ d09)) @ [Many (OneOf (''abcdef'' @ d09))]))]\<close>

definition selectorPatterns :: "regexp list" where
  \<open>selectorPatterns = [
     \<comment> \<open>\<^verbatim>\<open>/^\.[\w-]+$/\<close>\<close>
     Whole (seq [lit ''.'', Some1 (OneOf (wordChars @ ''-''))]),
     \<comment> \<open>\<^verbatim>\<open>/^#[\w-]+$/\<close>\<close>
     Whole (seq [lit ''#'', Some1 (OneOf (wordChars @ ''-''))]),
     \<comment> \<open>\<^verbatim>\<open>/^[A-Z_][A-Z0-9_]*$/\<close>\<close>
     Whole (Cat (OneOf (AZ @ ''_'')) (Many (OneOf (AZ @ d09 @ ''_''))))]\<close>

definition codePatterns :: "regexp list" where
  \<comment> \<open>the list of the source, in its order, under the headings of its comments\<close>
  "codePatterns =
     packagePatterns @ pathPatterns @ identifierPatterns @ interpolationPatterns @
     technicalStringPatterns @ angularPatterns @ constantPatterns @ versionPatterns @
     selectorPatterns"

definition looksLikeTranslationKey :: "string \<Rightarrow> bool" where
  \<comment> \<open>\<^verbatim>\<open>/^[a-zA-Z0-9_.]+$/.test(trimmed) && trimmed.includes('.')\<close>\<close>
  "looksLikeTranslationKey trimmed =
     (test (Whole (Some1 (OneOf (az @ AZ @ d09 @ ''_.'')))) trimmed \<and> includesStr trimmed ''.'')"

definition contextVerdict :: "ClassificationContext \<Rightarrow> string \<Rightarrow> bool option" where
  \<comment> \<open>the block \<^verbatim>\<open>if (context) { ... }\<close>: the value it returns, or \<open>None\<close> when
      control falls through to the pattern checks\<close>
  "contextVerdict context trimmed =
     (if isImport context \<or> isRequire context then Some False
      else if isDecorator context \<or> isComponentDecorator context then Some False
      else if isConsole context then Some False
      else if isThrow context then Some (isUserFacingErrorMessage trimmed)
      else None)"

definition patternVerdict :: "string \<Rightarrow> bool" where
  \<comment> \<open>the checks after the context block\<close>
  "patternVerdict trimmed =
     (if list_ex (\<lambda>pattern. test pattern trimmed) codePatterns then False
      else if length trimmed < 3 then False
      else if \<not> includesStr trimmed '' '' \<and> length trimmed < 5 \<and> isCodeIdentifier trimmed then False
      else True)"

definition isDisplayText :: "string \<Rightarrow> ClassificationContext option \<Rightarrow> bool" where
  "isDisplayText text context =
     (let trimmed = trim text in
      if looksLikeTranslationKey trimmed then False
      else if test (Whole (seq [lit ''${'', Many dot, lit ''}''])) trimmed \<or>
              test (Within (seq [lit ''assets/i18n/'', Many dot, lit ''.json''])) trimmed then False
      else if includesStr trimmed ''${'' \<and> includesStr trimmed ''}'' then False
      else (case context of
              None \<Rightarrow> patternVerdict trimmed
            | Some c \<Rightarrow> (case contextVerdict c trimmed of
                           Some verdict \<Rightarrow> verdict
                         | None \<Rightarrow> patternVerdict trimmed)))"


section \<open>The collaborators outside the repository\<close>

text \<open>
  The extractor calls Node's \<^verbatim>\<open>path\<close> and \<^verbatim>\<open>fs\<close> modules, \<^verbatim>\<open>glob\<close>, the
  markup parser \<^verbatim>\<open>cheerio\<close>, the clock and \<^verbatim>\<open>JSON.stringify\<close>. The file system
  is modelled below; the other functions are parameters of the model, collected in a
  record, so that every theorem with a free \<open>env\<close> holds whatever they compute.
\<close>

datatype node =
    Element (tagName: string) (attribs: "(string \<times> string) list") (children: "node list")
  | Text string
  | Comment string

record FileSystem =
  files :: "string \<rightharpoonup> string"          \<comment> \<open>the content of each file\<close>
  readFails :: "string \<rightharpoonup> string"      \<comment> \<open>the message of the error reading a path raises\<close>
  writeFails :: "string \<rightharpoonup> string"     \<comment> \<open>the message of the error writing a path raises\<close>
  mkdirFails :: "string \<rightharpoonup> string"     \<comment> \<open>the message of the error creating a directory raises\<close>
  written :: "(string \<times> string) list"  \<comment> \<open>the calls of \<^verbatim>\<open>fs.writeFile\<close> that succeeded, in order\<close>

record Metadata =
  extractedAt :: string
  totalTexts :: nat
  meta_keyPrefix :: string          \<comment> \<open>the field \<^verbatim>\<open>keyPrefix\<close>\<close>

record Output =
  out_locale :: string              \<comment> \<open>the field \<^verbatim>\<open>locale\<close>\<close>
  out_translations :: "(string \<times> string) list"
      \<comment> \<open>the object \<^verbatim>\<open>translations\<close>, its keys in insertion order\<close>
  out_metadata :: Metadata          \<comment> \<open>the field \<^verbatim>\<open>metadata\<close>\<close>

record Env =
  path_basename :: "string \<Rightarrow> string \<Rightarrow> string"   \<comment> \<open>\<^verbatim>\<open>path.basename(p, ext)\<close>\<close>
  path_extname :: "string \<Rightarrow> string"              \<comment> \<open>\<^verbatim>\<open>path.extname(p)\<close>\<close>
  path_dirname :: "string \<Rightarrow> string"              \<comment> \<open>\<^verbatim>\<open>path.dirname(p)\<close>\<close>
  path_join :: "string \<Rightarrow> string \<Rightarrow> string"       \<comment> \<open>\<^verbatim>\<open>path.join(a, b)\<close>\<close>
  glob_sync :: "FileSystem \<Rightarrow> string \<Rightarrow> string list"
      \<comment> \<open>\<^verbatim>\<open>glob.sync('**/*.html', { cwd })\<close>\<close>
  cheerio_load :: "string \<Rightarrow> node list"
      \<comment> \<open>\<^verbatim>\<open>cheerio.load(content, options)\<close>: the children of the document root\<close>
  cheerio_html :: "node list \<Rightarrow> string"
      \<comment> \<open>the serializer behind \<^verbatim>\<open>$.html()\<close> and \<^verbatim>\<open>$el.html()\<close>\<close>
  cheerio_parse :: "string \<Rightarrow> node list"
      \<comment> \<open>the fragment parser behind \<^verbatim>\<open>$el.html(markup)\<close>\<close>
  date_now :: string                               \<comment> \<open>\<^verbatim>\<open>new Date().toISOString()\<close>\<close>
  json_stringify :: "Output \<Rightarrow> string"           \<comment> \<open>\<^verbatim>\<open>JSON.stringify(output, null, 2)\<close>\<close>


section \<open>The session and the key generator\<close>

record Options =
  srcPath :: string
  outputPath :: string
  localeTag :: string               \<comment> \<open>the option \<^verbatim>\<open>locale\<close>\<close>
  keyPrefix :: string
  replace :: bool

text \<open>
  \<open>extractedTexts\<close> is a JavaScript \<^verbatim>\<open>Map\<close>: an association list in insertion
  order with distinct keys. \<open>keyCounter\<close> is a JavaScript number that starts at 1 and is
  only ever incremented by one; such a number is an exact integer up to \<open>2 ^ 53\<close>, far
  beyond the entries a \<^verbatim>\<open>Map\<close> can hold, and is modelled as a natural number.
\<close>

record TextExtractor =
  options :: Options
  extractedTexts :: "(string \<times> string) list"
  keyCounter :: nat
  currentComponentContext :: "string option"

definition newTextExtractor :: "Options \<Rightarrow> TextExtractor" where
  \<comment> \<open>the constructor\<close>
  "newTextExtractor opts =
     \<lparr>options = opts, extractedTexts = [], keyCounter = 1, currentComponentContext = None\<rparr>"

definition mapSet :: "string \<Rightarrow> string \<Rightarrow> (string \<times> string) list \<Rightarrow> (string \<times> string) list" where
  \<comment> \<open>\<^verbatim>\<open>Map.prototype.set\<close>: a known key keeps its place, a new one goes last\<close>
  "mapSet k v m =
     (if k \<in> fst ` set m then map (\<lambda>(k', v'). if k' = k then (k', v) else (k', v')) m
      else m @ [(k, v)])"

definition toLowerCase :: "string \<Rightarrow> string" where
  "toLowerCase s = map toLowerChar s"

definition toUpperCase :: "string \<Rightarrow> string" where
  "toUpperCase s = map toUpperChar s"

fun split :: "char \<Rightarrow> string \<Rightarrow> string list" where
  \<comment> \<open>\<^verbatim>\<open>s.split(sep)\<close> for a separator of one character\<close>
  "split sep [] = [[]]"
| "split sep (c # cs) =
     (if c = sep then [] # split sep cs
      else (case split sep cs of w # ws \<Rightarrow> (c # w) # ws | [] \<Rightarrow> [[c]]))"

definition stripSuffix_i :: "string list \<Rightarrow> string \<Rightarrow> string" where
  \<comment> \<open>\<^verbatim>\<open>name.replace(/\.(w1|w2|...)$/i, '')\<close>: the words have no dot, so the match, if
      any, is the last dot and what follows it\<close>
  \<open>stripSuffix_i ws name =
     (case filter (\<lambda>w. suffix (CHR ''.'' # w) (toLowerCase name)) ws of
        [] \<Rightarrow> name
      | w # _ \<Rightarrow> take (length name - (length w + 1)) name)\<close>

definition stripPrefix_i :: "string list \<Rightarrow> string \<Rightarrow> string" where
  \<comment> \<open>\<^verbatim>\<open>name.replace(/^(p1|p2|...)/i, '')\<close>: the first alternative that matches\<close>
  "stripPrefix_i ps name =
     (case filter (\<lambda>p. prefix p (toLowerCase name)) ps of
        [] \<Rightarrow> name
      | p # _ \<Rightarrow> drop (length p) name)"

definition capitalize :: "string \<Rightarrow> string" where
  \<comment> \<open>\<^verbatim>\<open>word.charAt(0).toUpperCase() + word.slice(1)\<close>\<close>
  "capitalize word = toUpperCase (take 1 word) @ drop 1 word"

definition extractComponentName :: "Env \<Rightarrow> string \<Rightarrow> string" where
  "extractComponentName env filePath =
     (let fileName = path_basename env filePath (path_extname env filePath);
          componentName =
            stripPrefix_i [''app-'', ''ng-'']
              (stripSuffix_i [''component'', ''service'', ''directive'', ''pipe'', ''guard'',
                              ''resolver'', ''module'', ''spec'', ''test''] fileName);
          words = split CHR ''-'' componentName;
          camelCase = concat (hd words # map capitalize (tl words))
      in if length camelCase > 15 then
           (let abbreviated = toLowerCase (concat (map (take 1) words))
            in if length abbreviated \<ge> 2 then abbreviated else take 10 camelCase)
         else if camelCase = [] then ''comp'' else camelCase)"

definition setComponentContext :: "Env \<Rightarrow> TextExtractor \<Rightarrow> string \<Rightarrow> TextExtractor" where
  "setComponentContext env s filePath =
     s\<lparr>currentComponentContext := Some (extractComponentName env filePath)\<rparr>"

definition digitChar :: "nat \<Rightarrow> char" where
  "digitChar d = d09 ! d"

fun decimal :: "nat \<Rightarrow> string" where
  \<comment> \<open>the decimal numeral of a counter, as a template literal prints it\<close>
  "decimal n = (if n < 10 then [digitChar n] else decimal (n div 10) @ [digitChar (n mod 10)])"

declare decimal.simps [simp del]

function collapseSpaces :: "string \<Rightarrow> string" where
  \<comment> \<open>\<^verbatim>\<open>s.replace(/\s+/g, '_')\<close>\<close>
  "collapseSpaces [] = []"
| "collapseSpaces (c # cs) =
     (if c \<in> set whiteSpace then CHR ''_'' # collapseSpaces (dropWhile (\<lambda>c. c \<in> set whiteSpace) cs)
      else c # collapseSpaces cs)"
  by pat_completeness auto
termination
  by (relation "measure length") (auto simp: length_dropWhile_le less_Suc_eq_le)

definition cleanText :: "string \<Rightarrow> string" where
  \<comment> \<open>the slug: \<^verbatim>\<open>text.trim().toLowerCase().replace(/[^a-zA-Z0-9\s]/g, '')
      .replace(/\s+/g, '_').substring(0, 25)\<close>\<close>
  \<open>cleanText text =
     take 25 (collapseSpaces
       (filter (\<lambda>c. c \<in> set (az @ AZ @ d09 @ whiteSpace)) (toLowerCase (trim text))))\<close>

definition contextPart :: "Env \<Rightarrow> TextExtractor \<Rightarrow> string option \<Rightarrow> string" where
  \<comment> \<open>the constants \<^verbatim>\<open>componentContext\<close> and \<^verbatim>\<open>contextPart\<close> of
      \<^verbatim>\<open>generateKey\<close>; a \<open>filePath\<close> that is \<^verbatim>\<open>null\<close> or empty is falsy, and so is
      such a component context\<close>
  "contextPart env s filePath =
     (let componentContext =
            (case filePath of
               Some p \<Rightarrow> if p \<noteq> [] then Some (extractComponentName env p)
                         else currentComponentContext s
             | None \<Rightarrow> currentComponentContext s)
      in case componentContext of
           Some cc \<Rightarrow> if cc \<noteq> [] then cc @ ''.'' else []
         | None \<Rightarrow> [])"

definition generateKey :: "Env \<Rightarrow> TextExtractor \<Rightarrow> string \<Rightarrow> string option \<Rightarrow> string \<times> TextExtractor" where
  \<comment> \<open>returns the key and the session with the counter incremented\<close>
  "generateKey env s text filePath =
     (keyPrefix (options s) @ ''.'' @ contextPart env s filePath @ cleanText text @ ''_'' @
        decimal (keyCounter s),
      s\<lparr>keyCounter := keyCounter s + 1\<rparr>)"


definition counterSuffix :: "string \<Rightarrow> string" where
  \<comment> \<open>what follows the last underscore of a key\<close>
  "counterSuffix key = rev (takeWhile (\<lambda>c. c \<noteq> CHR ''_'') (rev key))"



section \<open>The markup tree\<close>

text \<open>
  A loaded document is the list of the nodes under the root. An element is identified by
  its position, the indexes of the children that lead to it from the root; the positions
  stand for the object identities the source keeps in \<^verbatim>\<open>processedElements\<close> and in
  \<^verbatim>\<open>modifications\<close>.
\<close>

type_synonym position = "nat list"

fun textOf :: "node \<Rightarrow> string" where
  \<comment> \<open>\<^verbatim>\<open>$el.text()\<close>: the text of the descendants, in document order\<close>
  "textOf (Element tag attrs kids) = concat (map textOf kids)"
| "textOf (Text s) = s"
| "textOf (Comment s) = []"

fun elementsAt :: "position \<Rightarrow> node \<Rightarrow> (position \<times> node) list"
  and elementsFrom :: "position \<Rightarrow> nat \<Rightarrow> node list \<Rightarrow> (position \<times> node) list" where
  \<comment> \<open>the elements of a subtree, in document order, each with its position\<close>
  "elementsAt p (Element tag attrs kids) = (p, Element tag attrs kids) # elementsFrom p 0 kids"
| "elementsAt p (Text s) = []"
| "elementsAt p (Comment s) = []"
| "elementsFrom p i [] = []"
| "elementsFrom p i (n # ns) = elementsAt (p @ [i]) n @ elementsFrom p (Suc i) ns"

definition allElements :: "node list \<Rightarrow> (position \<times> node) list" where
  \<comment> \<open>\<^verbatim>\<open>$('*')\<close>\<close>
  "allElements doc = elementsFrom [] 0 doc"

definition selectTag :: "string \<Rightarrow> node list \<Rightarrow> (position \<times> node) list" where
  \<comment> \<open>\<^verbatim>\<open>$(tagName)\<close>\<close>
  "selectTag tag doc = filter (\<lambda>(p, el). tagName el = tag) (allElements doc)"

definition findAll :: "position \<Rightarrow> node \<Rightarrow> (position \<times> node) list" where
  \<comment> \<open>\<^verbatim>\<open>$el.find('*')\<close>: the elements below the element at position \<open>p\<close>\<close>
  "findAll p el = (case el of Element tag attrs kids \<Rightarrow> elementsFrom p 0 kids | _ \<Rightarrow> [])"

definition findTags :: "string list \<Rightarrow> position \<Rightarrow> node \<Rightarrow> (position \<times> node) list" where
  \<comment> \<open>\<^verbatim>\<open>$el.find('t1, t2, ...')\<close>\<close>
  "findTags tags p el = filter (\<lambda>(q, d). tagName d \<in> set tags) (findAll p el)"

fun nodeAt :: "node list \<Rightarrow> position \<Rightarrow> node option" where
  "nodeAt ns [] = None"
| "nodeAt ns [i] = (if i < length ns then Some (ns ! i) else None)"
| "nodeAt ns (i # j # p) =
     (if i < length ns then
        (case ns ! i of Element tag attrs kids \<Rightarrow> nodeAt kids (j # p) | _ \<Rightarrow> None)
      else None)"

definition attr :: "node list \<Rightarrow> position \<Rightarrow> string \<Rightarrow> string option" where
  \<comment> \<open>\<^verbatim>\<open>$el.attr(name)\<close> on the element at a position: \<open>None\<close> is \<^verbatim>\<open>undefined\<close>\<close>
  "attr doc p name =
     (case nodeAt doc p of
        Some (Element tag attrs kids) \<Rightarrow> map_of attrs name
      | _ \<Rightarrow> None)"

fun updateNodes :: "position \<Rightarrow> (node \<Rightarrow> node) \<Rightarrow> node list \<Rightarrow> node list" where
  \<comment> \<open>the tree with the node at a position replaced by its image\<close>
  "updateNodes [] f ns = ns"
| "updateNodes [i] f ns = (if i < length ns then ns[i := f (ns ! i)] else ns)"
| "updateNodes (i # j # p) f ns =
     (if i < length ns then
        (case ns ! i of
           Element tag attrs kids \<Rightarrow> ns[i := Element tag attrs (updateNodes (j # p) f kids)]
         | _ \<Rightarrow> ns)
      else ns)"

definition setAttr :: "string \<Rightarrow> string \<Rightarrow> node \<Rightarrow> node" where
  \<comment> \<open>\<^verbatim>\<open>$el.attr(name, value)\<close>\<close>
  "setAttr name v el =
     (case el of Element tag attrs kids \<Rightarrow> Element tag (mapSet name v attrs) kids | _ \<Rightarrow> el)"

definition setChildren :: "node list \<Rightarrow> node \<Rightarrow> node" where
  "setChildren new el = (case el of Element tag attrs kids \<Rightarrow> Element tag attrs new | _ \<Rightarrow> el)"


section \<open>The markup extractor\<close>

definition placeholder :: "string \<Rightarrow> string" where
  \<comment> \<open>the template literal \<^verbatim>\<open>{{ '${key}' | translate }}\<close>\<close>
  "placeholder key = ''{{ '' @ [CHR 0x27] @ key @ [CHR 0x27] @ '' | translate }}''"

definition looksTranslated :: "string \<Rightarrow> bool" where
  \<comment> \<open>\<^verbatim>\<open>t.includes("{{ '") && t.includes("' | translate }}")\<close>\<close>
  "looksTranslated t =
     (includesStr t (''{{ '' @ [CHR 0x27]) \<and> includesStr t (CHR 0x27 # '' | translate }}''))"

function stripTags :: "string \<Rightarrow> string" where
  \<comment> \<open>\<^verbatim>\<open>html.replace(/<[^>]*>/g, '')\<close>: a \<^verbatim>\<open><\<close> with a \<^verbatim>\<open>>\<close> after it goes, with
      everything up to the first such \<^verbatim>\<open>>\<close>\<close>
  "stripTags [] = []"
| "stripTags (c # cs) =
     (if c = CHR ''<'' \<and> CHR ''>'' \<in> set cs
      then stripTags (tl (dropWhile (\<lambda>x. x \<noteq> CHR ''>'') cs))
      else c # stripTags cs)"
  by pat_completeness auto
termination
proof (relation "measure length")
  show "wf (measure length)" by simp
next
  fix c :: char and cs :: string
  have "length (tl (dropWhile (\<lambda>x. x \<noteq> CHR ''>'') cs)) \<le> length cs"
    using length_dropWhile_le [of "\<lambda>x. x \<noteq> CHR ''>''" cs] by simp
  then show "(tl (dropWhile (\<lambda>x. x \<noteq> CHR ''>'') cs), c # cs) \<in> measure length" by simp
next
  fix c :: char and cs :: string
  show "(cs, c # cs) \<in> measure length" by simp
qed

definition containsTranslatableText :: "string \<Rightarrow> bool" where
  "containsTranslatableText htmlContent =
     (let textOnly = trim (stripTags htmlContent)
      in if looksTranslated textOnly then False
         else length textOnly > 0 \<and> \<not> isExcluded textOnly \<and> isDisplayText textOnly None)"

definition contentElements :: "string list" where
  "contentElements = [''button'', ''a'', ''label'', ''h1'', ''h2'', ''h3'', ''h4'', ''h5'', ''h6'',
     ''p'', ''li'', ''td'', ''th'', ''span'', ''strong'', ''em'', ''b'', ''i'']"

definition hasAngularDirectives :: "node \<Rightarrow> bool" where
  \<open>hasAngularDirectives el =
     list_ex (\<lambda>name.
        prefix ''*ng'' name \<or> prefix ''['' name \<or> prefix ''('' name \<or> includesStr name ''{{'' \<or>
        \<comment> \<open>\<^verbatim>\<open>/^(ngIf|ngFor|ngClass|ngStyle|routerLink)/\<close>\<close>
        test (Starts (alt (map lit [''ngIf'', ''ngFor'', ''ngClass'', ''ngStyle'', ''routerLink'']))) name)
      (map fst (attribs el))\<close>

record Modification =
  target :: position              \<comment> \<open>the field \<^verbatim>\<open>element\<close>\<close>
  modKey :: string                \<comment> \<open>the field \<^verbatim>\<open>key\<close>\<close>
  replaceEntireContent :: bool

record Pass =
  session :: TextExtractor
  modifications :: "Modification list"
  processedElements :: "position list"

definition register :: "Env \<Rightarrow> Pass \<Rightarrow> position \<Rightarrow> string \<Rightarrow> string \<Rightarrow> bool \<Rightarrow> Pass" where
  \<comment> \<open>the statements both extracting branches share: generate a key from \<open>fullText\<close>,
      store the value under it and, when replacing, queue the modification\<close>
  "register env st p fullText v entire =
     (case generateKey env (session st) fullText None of
        (k, s') \<Rightarrow>
          st\<lparr>session := s'\<lparr>extractedTexts := mapSet k v (extractedTexts s')\<rparr>,
             modifications :=
               (if replace (options s')
                then modifications st @ [\<lparr>target = p, modKey = k, replaceEntireContent = entire\<rparr>]
                else modifications st)\<rparr>)"

definition processElement :: "Env \<Rightarrow> string \<Rightarrow> Pass \<Rightarrow> position \<times> node \<Rightarrow> Pass" where
  \<comment> \<open>the callback of \<^verbatim>\<open>$(tagName).each\<close>\<close>
  "processElement env tag st pe =
     (case pe of (p, el) \<Rightarrow>
      if p \<in> set (processedElements st) then st
      else if tag \<in> set [''div'', ''span''] \<and>
              findTags [''p'', ''li'', ''h1'', ''h2'', ''h3'', ''h4'', ''h5'', ''h6'', ''button'',
                        ''label'', ''a''] p el \<noteq> [] then st
      else
        let fullText = trim (textOf el) in
        if fullText = [] \<or> isExcluded fullText then st
        else if looksTranslated fullText then st
        else if includesStr fullText ''{{'' \<and> includesStr fullText ''}}'' then st
        else if hasAngularDirectives el then st
        else
          let hasChildElements = (findAll p el \<noteq> []);
              htmlContent = cheerio_html env (children el)
          in if hasChildElements \<and> containsTranslatableText htmlContent then
               (register env st p fullText htmlContent True)
                 \<lparr>processedElements := processedElements st @ [p] @ map fst (findAll p el)\<rparr>
             else if \<not> hasChildElements then
               (if \<not> isExcluded fullText then register env st p fullText fullText False else st)
                 \<lparr>processedElements := processedElements st @ [p]\<rparr>
             else st)"

definition contentPass :: "Env \<Rightarrow> node list \<Rightarrow> Pass \<Rightarrow> Pass" where
  \<comment> \<open>\<^verbatim>\<open>contentElements.forEach(tagName => $(tagName).each(...))\<close>\<close>
  "contentPass env doc st =
     foldl (\<lambda>st tag. foldl (processElement env tag) st (selectTag tag doc)) st contentElements"

definition attributes :: "string list" where
  "attributes = [''title'', ''alt'', ''placeholder'', ''aria-label'']"

definition extractAttribute ::
  "Env \<Rightarrow> TextExtractor \<times> node list \<Rightarrow> position \<times> string \<Rightarrow> TextExtractor \<times> node list" where
  \<comment> \<open>the callback of \<^verbatim>\<open>attributes.forEach\<close> for one element; an empty value is falsy\<close>
  "extractAttribute env sd pa =
     (case (sd, pa) of ((s, doc), (p, name)) \<Rightarrow>
      (case attr doc p name of
         None \<Rightarrow> (s, doc)
       | Some attrValue \<Rightarrow>
           (if attrValue \<noteq> [] \<and> trim attrValue \<noteq> [] \<and> \<not> isExcluded attrValue then
              (if includesStr attrValue ''{{'' \<or> includesStr attrValue ''}}'' \<or>
                  includesStr attrValue ''['' \<or> includesStr attrValue ''('' then (s, doc)
               else
                 (case generateKey env s attrValue None of
                    (k, s') \<Rightarrow>
                      (s'\<lparr>extractedTexts := mapSet k attrValue (extractedTexts s')\<rparr>,
                       if replace (options s')
                       then updateNodes p (setAttr name (placeholder k)) doc
                       else doc)))
            else (s, doc))))"

definition attributeSites :: "node list \<Rightarrow> (position \<times> string) list" where
  \<comment> \<open>every element of the document with each of the four attributes, in the order of
      the two loops\<close>
  "attributeSites doc =
     concat (map (\<lambda>(p, el). map (\<lambda>name. (p, name)) attributes) (allElements doc))"

definition attributePass :: "Env \<Rightarrow> TextExtractor \<times> node list \<Rightarrow> TextExtractor \<times> node list" where
  \<comment> \<open>\<^verbatim>\<open>$('*').each(element => attributes.forEach(...))\<close>: the selection is taken
      once, before the loop\<close>
  "attributePass env sd = foldl (extractAttribute env) sd (attributeSites (snd sd))"

definition applyModification :: "Env \<Rightarrow> node list \<Rightarrow> Modification \<Rightarrow> node list" where
  \<comment> \<open>\<^verbatim>\<open>mod.element.html(...)\<close> or \<^verbatim>\<open>mod.element.text(...)\<close>\<close>
  "applyModification env doc m =
     updateNodes (target m)
       (setChildren (if replaceEntireContent m then cheerio_parse env (placeholder (modKey m))
                     else [Text (placeholder (modKey m))]))
       doc"

definition stripWrapper :: "string \<Rightarrow> string" where
  \<comment> \<open>removes the 25 and 14 characters of the wrapper cheerio adds, when both are there:
      \<^verbatim>\<open>modifiedHtml.slice(25, -14)\<close>\<close>
  "stripWrapper h =
     (if prefix ''<html><head></head><body>'' h \<and> suffix ''</body></html>'' h
      then drop 25 (take (length h - 14) h) else h)"

function replaceAll :: "string \<Rightarrow> string \<Rightarrow> string \<Rightarrow> string" where
  \<comment> \<open>\<^verbatim>\<open>s.replace(/pat/g, rep)\<close> for a literal pattern\<close>
  "replaceAll pat rep [] = []"
| "replaceAll pat rep (c # cs) =
     (if pat \<noteq> [] \<and> prefix pat (c # cs)
      then rep @ replaceAll pat rep (drop (length pat) (c # cs))
      else c # replaceAll pat rep cs)"
  by pat_completeness auto
termination
  by (relation "measure (\<lambda>(pat, rep, s). length s)") auto

definition restoreDirectiveCase :: "string \<Rightarrow> string" where
  "restoreDirectiveCase h =
     replaceAll ''[routerlink]='' ''[routerLink]=''
       (replaceAll ''routerlink='' ''routerLink=''
         (replaceAll ''[ngstyle]='' ''[ngStyle]=''
           (replaceAll ''[ngclass]='' ''[ngClass]=''
             (replaceAll ''*ngswitch='' ''*ngSwitch=''
               (replaceAll ''*ngfor='' ''*ngFor=''
                 (replaceAll ''*ngif='' ''*ngIf='' h))))))"


section \<open>Files, the console and the session\<close>

datatype LogEntry =
    FoundHtmlFiles nat
      \<comment> \<open>\<^verbatim>\<open>console.log(`Found ${n} HTML files`)\<close>\<close>
  | CouldNotProcess string string
      \<comment> \<open>\<^verbatim>\<open>console.warn(`Warning: Could not process HTML template ${filePath}:`,
          error.message)\<close>: the file and the message\<close>
  | SavedTranslations nat string
      \<comment> \<open>the line that reports the number of translations saved and the output path\<close>

record World =
  fs :: FileSystem
  console :: "LogEntry list"

text \<open>
  A call that can raise returns \<open>Inl message\<close> for the error raised and \<open>Inr\<close> for a
  normal return, next to the state it leaves behind: what was done before an error stays
  done.
\<close>

definition readFile :: "FileSystem \<Rightarrow> string \<Rightarrow> string + string" where
  \<comment> \<open>\<^verbatim>\<open>fs.readFile(path, 'utf8')\<close>\<close>
  "readFile f p =
     (case readFails f p of
        Some message \<Rightarrow> Inl message
      | None \<Rightarrow> (case files f p of
                   None \<Rightarrow> Inl (''ENOENT: no such file or directory, open '' @ p)
                 | Some content \<Rightarrow> Inr content))"

definition writeFile :: "FileSystem \<Rightarrow> string \<Rightarrow> string \<Rightarrow> string + FileSystem" where
  \<comment> \<open>\<^verbatim>\<open>fs.writeFile(path, content, 'utf8')\<close>\<close>
  "writeFile f p content =
     (case writeFails f p of
        Some message \<Rightarrow> Inl message
      | None \<Rightarrow> Inr (f\<lparr>files := (files f)(p \<mapsto> content), written := written f @ [(p, content)]\<rparr>))"

definition mkdir :: "FileSystem \<Rightarrow> string \<Rightarrow> string + unit" where
  \<comment> \<open>\<^verbatim>\<open>fs.mkdir(dir, { recursive: true })\<close>; directories hold no content\<close>
  "mkdir f dir = (case mkdirFails f dir of Some message \<Rightarrow> Inl message | None \<Rightarrow> Inr ())"

definition tryExtractFromHtmlTemplate ::
  "Env \<Rightarrow> TextExtractor \<times> World \<Rightarrow> string \<Rightarrow> (string + unit) \<times> TextExtractor \<times> World" where
  \<comment> \<open>the \<^verbatim>\<open>try\<close> block of \<^verbatim>\<open>extractFromHtmlTemplate\<close>\<close>
  "tryExtractFromHtmlTemplate env sw filePath =
     (case sw of (s, w) \<Rightarrow>
      (let s1 = setComponentContext env s filePath in
       (case readFile (fs w) filePath of
          Inl message \<Rightarrow> (Inl message, s1, w)
        | Inr content \<Rightarrow>
            (let doc = cheerio_load env content;
                 st = contentPass env doc
                        \<lparr>session = s1, modifications = [], processedElements = []\<rparr>
             in (case attributePass env (session st, doc) of (s2, doc2) \<Rightarrow>
                 (if replace (options s2) then
                    (let doc3 = foldl (applyModification env) doc2 (modifications st);
                         modifiedHtml = restoreDirectiveCase (stripWrapper (cheerio_html env doc3))
                     in (case writeFile (fs w) filePath modifiedHtml of
                           Inl message \<Rightarrow> (Inl message, s2, w)
                         | Inr f \<Rightarrow> (Inr (), s2, w\<lparr>fs := f\<rparr>)))
                  else (Inr (), s2, w)))))))"

definition extractFromHtmlTemplate ::
  "Env \<Rightarrow> TextExtractor \<times> World \<Rightarrow> string \<Rightarrow> (string + unit) \<times> TextExtractor \<times> World" where
  \<comment> \<open>the \<^verbatim>\<open>try\<close> block with its \<^verbatim>\<open>catch\<close>\<close>
  "extractFromHtmlTemplate env sw filePath =
     (case tryExtractFromHtmlTemplate env sw filePath of
        (Inl message, s, w) \<Rightarrow>
          (Inr (), s, w\<lparr>console := console w @ [CouldNotProcess filePath message]\<rparr>)
      | (Inr u, s, w) \<Rightarrow> (Inr u, s, w))"

fun processHtmlFiles ::
  "Env \<Rightarrow> string \<Rightarrow> TextExtractor \<times> World \<Rightarrow> string list \<Rightarrow> (string + unit) \<times> TextExtractor \<times> World" where
  \<comment> \<open>the loop \<^verbatim>\<open>for (const file of htmlFiles)\<close>: an error a call raised would end it\<close>
  "processHtmlFiles env dirPath sw [] = (Inr (), sw)"
| "processHtmlFiles env dirPath sw (file # rest) =
     (case extractFromHtmlTemplate env sw (path_join env dirPath file) of
        (Inl message, sw') \<Rightarrow> (Inl message, sw')
      | (Inr u, sw') \<Rightarrow> processHtmlFiles env dirPath sw' rest)"

definition extractFromDirectory ::
  "Env \<Rightarrow> TextExtractor \<times> World \<Rightarrow> string \<Rightarrow> (string + unit) \<times> TextExtractor \<times> World" where
  "extractFromDirectory env sw dirPath =
     (case sw of (s, w) \<Rightarrow>
      let htmlFiles = glob_sync env (fs w) dirPath;
          w1 = w\<lparr>console := console w @ [FoundHtmlFiles (length htmlFiles)]\<rparr>
      in processHtmlFiles env dirPath (s, w1) htmlFiles)"

definition buildOutput :: "Env \<Rightarrow> TextExtractor \<Rightarrow> Output" where
  \<comment> \<open>the constant \<^verbatim>\<open>output\<close> of \<^verbatim>\<open>saveToJSON\<close>. The keys of \<open>translations\<close>
      keep the order of the map: a generated key ends in an underscore and a numeral, so
      none is an array index or \<^verbatim>\<open>__proto__\<close>\<close>
  "buildOutput env s =
     \<lparr>out_locale = localeTag (options s),
      out_translations = extractedTexts s,
      out_metadata = \<lparr>extractedAt = date_now env,
                      totalTexts = length (extractedTexts s),
                      meta_keyPrefix = keyPrefix (options s)\<rparr>\<rparr>"

definition saveToJSON ::
  "Env \<Rightarrow> TextExtractor \<times> World \<Rightarrow> string \<Rightarrow> (string + unit) \<times> TextExtractor \<times> World" where
  "saveToJSON env sw outPath =
     (case sw of (s, w) \<Rightarrow>
      (case mkdir (fs w) (path_dirname env outPath) of
         Inl message \<Rightarrow> (Inl message, s, w)
       | Inr u \<Rightarrow>
           (case writeFile (fs w) outPath (json_stringify env (buildOutput env s)) of
              Inl message \<Rightarrow> (Inl message, s, w)
            | Inr f \<Rightarrow>
                (Inr (), s,
                 w\<lparr>fs := f,
                   console := console w @ [SavedTranslations (length (extractedTexts s)) outPath]\<rparr>))))"

definition extractTexts :: "Env \<Rightarrow> Options \<Rightarrow> World \<Rightarrow> (string + unit) \<times> TextExtractor \<times> World" where
  "extractTexts env opts w =
     (case extractFromDirectory env (newTextExtractor opts, w) (srcPath opts) of
        (Inl message, sw) \<Rightarrow> (Inl message, sw)
      | (Inr u, sw) \<Rightarrow> saveToJSON env sw (outputPath opts))"


section \<open>The invariant of a session\<close>

definition keysBelow :: "TextExtractor \<Rightarrow> bool" where
  \<comment> \<open>every key the map holds ends in the numeral of a counter value already used; it
      holds for a new session and every extraction keeps it\<close>
  "keysBelow s =
     (\<forall>k \<in> fst ` set (extractedTexts s). \<exists>n < keyCounter s. counterSuffix k = decimal n)"

definition attributeValues :: "node list \<Rightarrow> position \<times> string \<Rightarrow> string list" where
  \<comment> \<open>the value of an attribute of the element at a position, if it has one and the
      attribute loop takes it: its trimmed form has two characters or more and is not made
      only of digits, white space and punctuation, and it has no \<^verbatim>\<open>{{\<close>,
      \<^verbatim>\<open>}}\<close>, \<^verbatim>\<open>[\<close> or \<^verbatim>\<open>(\<close>\<close>
  \<open>attributeValues doc pa =
     (case attr doc (fst pa) (snd pa) of
        None \<Rightarrow> []
      | Some v \<Rightarrow>
          if 2 \<le> length (trim v) \<and>
             \<not> set (trim v) \<subseteq> set (d09 @ whiteSpace @ ''-_.,;:!?()[]{}'') \<and>
             \<not> sublist ''{{'' v \<and> \<not> sublist ''}}'' v \<and> \<not> sublist ''['' v \<and> \<not> sublist ''('' v
          then [v] else [])\<close>


section \<open>Example inputs\<close>

definition throwContext :: ClassificationContext where
  \<comment> \<open>the context of a literal passed to \<^verbatim>\<open>throw new Error(\<close>\<close>
  "throwContext = \<lparr>isImport = False, isRequire = False, isDecorator = False,
     isComponentDecorator = False, isConsole = False, isThrow = True\<rparr>"

text \<open>
  For the closed examples the collaborators are fixed: POSIX paths without trailing
  slashes, a serializer that prints elements with quoted attributes, and a parser given by
  the trees of the documents the examples load, each under the \<^verbatim>\<open>html\<close>,
  \<^verbatim>\<open>head\<close> and \<^verbatim>\<open>body\<close> elements cheerio adds.
\<close>

definition posixBasename :: "string \<Rightarrow> string \<Rightarrow> string" where
  "posixBasename p ext =
     (let base = rev (takeWhile (\<lambda>c. c \<noteq> CHR ''/'') (rev p))
      in if ext \<noteq> [] \<and> suffix ext base \<and> base \<noteq> ext
         then take (length base - length ext) base else base)"

definition posixExtname :: "string \<Rightarrow> string" where
  "posixExtname p =
     (let base = rev (takeWhile (\<lambda>c. c \<noteq> CHR ''/'') (rev p));
          ext = rev (takeWhile (\<lambda>c. c \<noteq> CHR ''.'') (rev base))
      in if CHR ''.'' \<notin> set base \<or> length ext + 1 = length base then [] else CHR ''.'' # ext)"

definition posixDirname :: "string \<Rightarrow> string" where
  "posixDirname p = rev (drop 1 (dropWhile (\<lambda>c. c \<noteq> CHR ''/'') (rev p)))"

fun serialize :: "node \<Rightarrow> string" where
  "serialize (Element tag attrs kids) =
     ''<'' @ tag @ concat (map (\<lambda>(n, v). '' '' @ n @ ''='' @ [CHR 0x22] @ v @ [CHR 0x22]) attrs) @ ''>'' @
     concat (map serialize kids) @ ''</'' @ tag @ ''>''"
| "serialize (Text s) = s"
| "serialize (Comment s) = ''<!--'' @ s @ ''-->''"

definition wrapped :: "node list \<Rightarrow> node list" where
  "wrapped body = [Element ''html'' [] [Element ''head'' [] [], Element ''body'' [] body]]"

definition welcomeMarkup :: string where
  "welcomeMarkup = ''<h1>Welcome to our app</h1>''"

definition userIdMarkup :: string where
  "userIdMarkup = ''<img alt='' @ [CHR 0x22] @ ''userId'' @ [CHR 0x22] @ ''>''"

definition routerMarkup :: string where
  "routerMarkup = ''<a routerlink='' @ [CHR 0x22] @ ''/home'' @ [CHR 0x22] @ ''></a>''"

definition exampleLoad :: "string \<Rightarrow> node list" where
  "exampleLoad content =
     (if content = welcomeMarkup then wrapped [Element ''h1'' [] [Text ''Welcome to our app'']]
      else if content = userIdMarkup then wrapped [Element ''img'' [(''alt'', ''userId'')] []]
      else if content = routerMarkup then wrapped [Element ''a'' [(''routerlink'', ''/home'')] []]
      else wrapped [Text content])"

definition exampleEnv :: Env where
  "exampleEnv =
     \<lparr>path_basename = posixBasename,
      path_extname = posixExtname,
      path_dirname = posixDirname,
      path_join = (\<lambda>a b. a @ ''/'' @ b),
      glob_sync = (\<lambda>f cwd. [''app.component.html'']),
      cheerio_load = exampleLoad,
      cheerio_html = (\<lambda>ns. concat (map serialize ns)),
      cheerio_parse = (\<lambda>markup. [Text markup]),
      date_now = ''2024-01-01T12:00:00.000Z'',
      json_stringify = (\<lambda>output. concat (map (\<lambda>(k, v). k @ '': '' @ v @ ''; '') (out_translations output)))\<rparr>"

definition exampleOptions :: "bool \<Rightarrow> Options" where
  \<comment> \<open>the options of the command line with its defaults, \<open>replace\<close> as given\<close>
  "exampleOptions r =
     \<lparr>srcPath = ''/project/src'', outputPath = ''/project/i18n/messages.json'',
      localeTag = ''en'', keyPrefix = ''app'', replace = r\<rparr>"

definition exampleWorld :: "string \<Rightarrow> World" where
  \<comment> \<open>a source directory with one markup file of the given content and one component
      file\<close>
  "exampleWorld markup =
     \<lparr>fs = \<lparr>files = [''/project/src/app.component.html'' \<mapsto> markup,
                     ''/project/src/app.component.ts'' \<mapsto> ''title = '' @ [CHR 0x27] @ ''Welcome to our app'' @ [CHR 0x27] @ '';''],
             readFails = Map.empty, writeFails = Map.empty, mkdirFails = Map.empty,
             written = []\<rparr>,
      console = []\<rparr>"


definition markupPath :: string where
  "markupPath = ''/project/src/app.component.html''"

definition identifierRun :: "(string + unit) \<times> TextExtractor \<times> World" where
  \<comment> \<open>a dry run over a file whose image has the alternative text \<^verbatim>\<open>userId\<close>\<close>
  "identifierRun =
     extractFromHtmlTemplate exampleEnv
       (newTextExtractor (exampleOptions False), exampleWorld userIdMarkup) markupPath"

definition untouchedRun :: "(string + unit) \<times> TextExtractor \<times> World" where
  \<comment> \<open>a replacing run over a file with nothing to extract\<close>
  "untouchedRun =
     extractFromHtmlTemplate exampleEnv
       (newTextExtractor (exampleOptions True), exampleWorld routerMarkup) markupPath"

definition welcomeRun :: "(string + unit) \<times> TextExtractor \<times> World" where
  \<comment> \<open>the session of the end-to-end scenario: one markup file, one component file,
      \<open>keyPrefix\<close> \<^verbatim>\<open>app\<close>, \<open>replace\<close> off\<close>
  "welcomeRun = extractTexts exampleEnv (exampleOptions False) (exampleWorld welcomeMarkup)"

definition logoDocument :: "node list" where
  \<comment> \<open>an image with a title the extractor excludes and an alternative text it takes, and
      a link with a bound title\<close>
  "logoDocument =
     wrapped [Element ''img'' [(''src'', ''logo.png''), (''title'', ''1.''), (''alt'', ''Company logo'')] [],
              Element ''a'' [(''title'', ''{{ hint }}'')] []]"


section \<open>Correctness of the matcher\<close>

text \<open>
  The matcher decides membership in the language of the pattern, and \<open>test\<close>
  asks for a substring in that language, where the anchors allow one.
\<close>

lemma nullable_lang: "nullable r \<longleftrightarrow> [] \<in> lang r"
  by (induction r) (auto intro: star_nil)

lemma lang_cat: "lang (cat r s) = lang (Cat r s)"
  by (cases "(r, s)" rule: cat.cases) auto

lemma lang_or: "lang (or r s) = lang r \<union> lang s"
  by (cases "(r, s)" rule: or.cases) auto

lemma star_cons_split:
  assumes "w \<in> star A" and "w = c # x"
  shows "\<exists>u v. x = u @ v \<and> c # u \<in> A \<and> v \<in> star A"
  using assms
proof (induction arbitrary: x rule: star.induct)
  case star_nil
  then show ?case by simp
next
  case (star_app u v)
  show ?case
  proof (cases u)
    case Nil
    with star_app show ?thesis by simp
  next
    case (Cons d u')
    with star_app.prems have "d = c" and "x = u' @ v" by simp_all
    with Cons star_app.hyps show ?thesis by blast
  qed
qed

lemma star_cons: "c # x \<in> star A \<longleftrightarrow> (\<exists>u v. x = u @ v \<and> c # u \<in> A \<and> v \<in> star A)"
proof
  assume "c # x \<in> star A"
  then show "\<exists>u v. x = u @ v \<and> c # u \<in> A \<and> v \<in> star A"
    using star_cons_split by blast
next
  assume "\<exists>u v. x = u @ v \<and> c # u \<in> A \<and> v \<in> star A"
  then obtain u v where "x = u @ v" "c # u \<in> A" "v \<in> star A" by blast
  then have "(c # u) @ v \<in> star A" by (intro star_app)
  with \<open>x = u @ v\<close> show "c # x \<in> star A" by simp
qed

lemma lang_CatI: "u \<in> lang r \<Longrightarrow> v \<in> lang s \<Longrightarrow> u @ v \<in> lang (Cat r s)"
  by auto

lemma lang_deriv: "w \<in> lang (deriv c r) \<longleftrightarrow> c # w \<in> lang r"
proof (induction r arbitrary: w)
  case (Cat r s)
  show ?case
  proof
    assume "w \<in> lang (deriv c (Cat r s))"
    then consider (l) u v where "w = u @ v" "u \<in> lang (deriv c r)" "v \<in> lang s"
      | (r) "nullable r" "w \<in> lang (deriv c s)"
      by (auto simp: lang_or lang_cat split: if_splits)
    then show "c # w \<in> lang (Cat r s)"
    proof cases
      case l
      then have "c # u \<in> lang r" using Cat.IH(1) by simp
      with l have "(c # u) @ v \<in> lang (Cat r s)" by (intro lang_CatI)
      with l show ?thesis by simp
    next
      case r
      then have "[] \<in> lang r" "c # w \<in> lang s" using Cat.IH(2) nullable_lang by simp_all
      then have "[] @ (c # w) \<in> lang (Cat r s)" by (intro lang_CatI)
      then show ?thesis by simp
    qed
  next
    assume "c # w \<in> lang (Cat r s)"
    then obtain u v where uv: "c # w = u @ v" "u \<in> lang r" "v \<in> lang s" by auto
    show "w \<in> lang (deriv c (Cat r s))"
    proof (cases u)
      case Nil
      with uv have "nullable r" "w \<in> lang (deriv c s)" using Cat.IH(2) nullable_lang by simp_all
      then show ?thesis by (simp add: lang_or)
    next
      case (Cons d u')
      with uv have "w = u' @ v" "u' \<in> lang (deriv c r)" using Cat.IH(1) by simp_all
      with uv(3) have "w \<in> lang (cat (deriv c r) s)" by (auto simp: lang_cat)
      then show ?thesis by (simp add: lang_or)
    qed
  qed
next
  case (Many r)
  then show ?case by (auto simp: lang_cat star_cons)
qed (auto simp: lang_or)

lemma accepts_lang: "accepts r s \<longleftrightarrow> s \<in> lang r"
  by (induction s arbitrary: r) (simp_all add: nullable_lang lang_deriv)

lemma star_all: "(\<And>c. [c] \<in> A) \<Longrightarrow> w \<in> star A"
proof (induction w)
  case Nil
  show ?case by (rule star_nil)
next
  case (Cons c w)
  then have "[c] @ w \<in> star A" by (intro star_app) simp_all
  then show ?case by simp
qed

lemma lang_anyChar: "w \<in> lang (Many anyChar)"
  by (simp add: anyChar_def star_all)

lemma test_Whole: "test (Whole r) s \<longleftrightarrow> s \<in> lang r"
  by (simp add: accepts_lang)

lemma test_Starts: "test (Starts r) s \<longleftrightarrow> (\<exists>u v. s = u @ v \<and> u \<in> lang r)"
  using lang_anyChar by (auto simp: accepts_lang simp del: lang.simps(7))

lemma test_Ends: "test (Ends r) s \<longleftrightarrow> (\<exists>u v. s = u @ v \<and> v \<in> lang r)"
  using lang_anyChar by (auto simp: accepts_lang simp del: lang.simps(7))

lemma test_Within: "test (Within r) s \<longleftrightarrow> (\<exists>u v w. s = u @ v @ w \<and> v \<in> lang r)"
  using lang_anyChar by (auto simp: accepts_lang simp del: lang.simps(7))


section \<open>Strings: substrings and trimming\<close>

lemma includesStr_sublist: "includesStr s sub \<longleftrightarrow> sublist sub s"
  by (induction s) (auto simp: sublist_Cons_right)

lemma sublist_dropWhile_keep:
  assumes "sublist sub s" and "sub \<noteq> []" and "\<not> P (hd sub)"
  shows "sublist sub (dropWhile P s)"
  using assms(1)
proof (induction s)
  case Nil
  then show ?case by simp
next
  case (Cons x xs)
  show ?case
  proof (cases "P x")
    case False
    with Cons.prems show ?thesis by simp
  next
    case True
    with assms(2,3) have "\<not> prefix sub (x # xs)"
      by (cases sub) auto
    with Cons.prems have "sublist sub xs" by (simp add: sublist_Cons_right)
    with Cons.IH True show ?thesis by simp
  qed
qed

lemma sublist_trim:
  assumes "sublist sub s" and "sub \<noteq> []"
    and "hd sub \<notin> set whiteSpace" and "last sub \<notin> set whiteSpace"
  shows "sublist sub (trim s)"
proof -
  let ?P = "\<lambda>c. c \<in> set whiteSpace"
  have "sublist sub (dropWhile ?P s)"
    using assms by (intro sublist_dropWhile_keep) simp_all
  then have "sublist (rev sub) (rev (dropWhile ?P s))" by simp
  moreover have "rev sub \<noteq> []" "\<not> ?P (hd (rev sub))"
    using assms by (simp_all add: hd_rev)
  ultimately have "sublist (rev sub) (dropWhile ?P (rev (dropWhile ?P s)))"
    by (intro sublist_dropWhile_keep)
  then have "sublist (rev (rev sub)) (rev (dropWhile ?P (rev (dropWhile ?P s))))"
    by (simp only: sublist_rev)
  then show ?thesis by (simp add: trim_def)
qed


section \<open>Languages of the pattern shapes the classifier uses\<close>

lemma lit_Nil: "lit [] = Empty"
  by (simp add: lit_def seq_def)

lemma lit_Cons: "lit (c # s) = Cat (OneOf [c]) (lit s)"
  by (simp add: lit_def seq_def)

lemma lang_lit: "lang (lit s) = {s}"
  by (induction s) (auto simp: lit_Nil lit_Cons)

lemma seq_Nil: "seq [] = Empty"
  by (simp add: seq_def)

lemma seq_Cons: "seq (r # rs) = Cat r (seq rs)"
  by (simp add: seq_def)

lemma lang_Cat_OneOf: "lang (Cat (OneOf cs) r) = {c # v | c v. c \<in> set cs \<and> v \<in> lang r}"
proof -
  have "c \<in> set cs \<Longrightarrow> v \<in> lang r \<Longrightarrow> c # v \<in> lang (Cat (OneOf cs) r)" for c v
    using lang_CatI [of "[c]" "OneOf cs" v r] by simp
  then show ?thesis by auto
qed

lemma lang_Cat_NoneOf: "lang (Cat (NoneOf cs) r) = {c # v | c v. c \<notin> set cs \<and> v \<in> lang r}"
proof -
  have "c \<notin> set cs \<Longrightarrow> v \<in> lang r \<Longrightarrow> c # v \<in> lang (Cat (NoneOf cs) r)" for c v
    using lang_CatI [of "[c]" "NoneOf cs" v r] by simp
  then show ?thesis by auto
qed

lemma lang_Cat_lit: "lang (Cat (lit s) r) = {s @ v | v. v \<in> lang r}"
  by (auto simp: lang_lit)

lemma lang_Many_OneOf: "lang (Many (OneOf cs)) = {w. set w \<subseteq> set cs}"
proof -
  have "w \<in> star (lang (OneOf cs)) \<Longrightarrow> set w \<subseteq> set cs" for w
    by (induction rule: star.induct) auto
  moreover have "set w \<subseteq> set cs \<Longrightarrow> w \<in> star (lang (OneOf cs))" for w
  proof (induction w)
    case Nil
    show ?case by (rule star_nil)
  next
    case (Cons c w)
    then have "[c] @ w \<in> star (lang (OneOf cs))" by (intro star_app) simp_all
    then show ?case by simp
  qed
  ultimately show ?thesis by auto
qed

lemma lang_Many_NoneOf: "lang (Many (NoneOf cs)) = {w. set w \<inter> set cs = {}}"
proof -
  have "w \<in> star (lang (NoneOf cs)) \<Longrightarrow> set w \<inter> set cs = {}" for w
    by (induction rule: star.induct) auto
  moreover have "set w \<inter> set cs = {} \<Longrightarrow> w \<in> star (lang (NoneOf cs))" for w
  proof (induction w)
    case Nil
    show ?case by (rule star_nil)
  next
    case (Cons c w)
    then have "[c] @ w \<in> star (lang (NoneOf cs))" by (intro star_app) simp_all
    then show ?case by simp
  qed
  ultimately show ?thesis by auto
qed

lemma lang_Many_dot: "lang (Many dot) = {w. set w \<inter> set lineTerminators = {}}"
  by (simp only: dot_def lang_Many_NoneOf)

lemma lang_Some1_OneOf: "lang (Some1 (OneOf cs)) = {w. w \<noteq> [] \<and> set w \<subseteq> set cs}"
proof -
  have "w \<in> lang (Some1 (OneOf cs)) \<longleftrightarrow> w \<noteq> [] \<and> set w \<subseteq> set cs" for w
    unfolding Some1_def lang_Cat_OneOf lang_Many_OneOf
    by (cases w) auto
  then show ?thesis by blast
qed

lemma lang_Maybe: "lang (Maybe r) = insert [] (lang r)"
  by (auto simp: Maybe_def)

lemma test_key_chars:
  "test (Whole (Some1 (OneOf cs))) t \<longleftrightarrow> t \<noteq> [] \<and> set t \<subseteq> set cs"
  by (simp add: accepts_lang lang_Some1_OneOf)

lemma looksLikeTranslationKey_iff:
  "looksLikeTranslationKey t \<longleftrightarrow>
     t \<noteq> [] \<and> set t \<subseteq> set (az @ AZ @ d09 @ ''_.'') \<and> CHR ''.'' \<in> set t"
proof -
  have "sublist ''.'' t \<longleftrightarrow> CHR ''.'' \<in> set t"
    by (auto simp: sublist_def in_set_conv_decomp)
  then show ?thesis
    unfolding looksLikeTranslationKey_def test_key_chars includesStr_sublist by blast
qed

lemma lang_two_lower:
  "lang (seq [OneOf az, Many dot, OneOf az]) =
     {a # m @ [b] | a m b. a \<in> set az \<and> b \<in> set az \<and> set m \<inter> set lineTerminators = {}}"
proof -
  have "lang (Cat (OneOf az) Empty) = {[b] | b. b \<in> set az}"
    unfolding lang_Cat_OneOf by simp
  then have "lang (Cat (Many dot) (Cat (OneOf az) Empty)) =
      {m @ [b] | m b. b \<in> set az \<and> set m \<inter> set lineTerminators = {}}"
    unfolding lang.simps(5) [of "Many dot"] lang_Many_dot by blast
  then show ?thesis
    unfolding seq_Cons seq_Nil lang_Cat_OneOf by blast
qed

lemma test_two_lower:
  "test (Within (seq [OneOf az, Many dot, OneOf az])) t \<longleftrightarrow>
     (\<exists>u a m b w. t = u @ [a] @ m @ [b] @ w \<and> a \<in> set az \<and> b \<in> set az \<and>
        set m \<inter> set lineTerminators = {})"
proof
  assume "test (Within (seq [OneOf az, Many dot, OneOf az])) t"
  then obtain u v w where "t = u @ v @ w" "v \<in> lang (seq [OneOf az, Many dot, OneOf az])"
    unfolding test_Within by blast
  then obtain a m b where "t = u @ (a # m @ [b]) @ w" "a \<in> set az" "b \<in> set az"
      "set m \<inter> set lineTerminators = {}"
    unfolding lang_two_lower by blast
  then have "t = u @ [a] @ m @ [b] @ w \<and> a \<in> set az \<and> b \<in> set az \<and>
      set m \<inter> set lineTerminators = {}" by simp
  then show "\<exists>u a m b w. t = u @ [a] @ m @ [b] @ w \<and> a \<in> set az \<and> b \<in> set az \<and>
      set m \<inter> set lineTerminators = {}" by blast
next
  assume "\<exists>u a m b w. t = u @ [a] @ m @ [b] @ w \<and> a \<in> set az \<and> b \<in> set az \<and>
      set m \<inter> set lineTerminators = {}"
  then obtain u a m b w where *: "t = u @ [a] @ m @ [b] @ w" "a \<in> set az" "b \<in> set az"
      "set m \<inter> set lineTerminators = {}" by blast
  then have "a # m @ [b] \<in> lang (seq [OneOf az, Many dot, OneOf az])"
    unfolding lang_two_lower by blast
  moreover have "t = u @ (a # m @ [b]) @ w" using *(1) by simp
  ultimately show "test (Within (seq [OneOf az, Many dot, OneOf az])) t"
    unfolding test_Within by blast
qed

lemma lang_braces:
  "lang (seq [lit ''{{'', Many dot, lit ''}}'']) =
     {''{{'' @ m @ ''}}'' | m. set m \<inter> set lineTerminators = {}}"
proof -
  have "lang (Cat (lit ''}}'') Empty) = {''}}''}"
    unfolding lang_Cat_lit by simp
  then have "lang (Cat (Many dot) (Cat (lit ''}}'') Empty)) =
      {m @ ''}}'' | m. set m \<inter> set lineTerminators = {}}"
    unfolding lang.simps(5) [of "Many dot"] lang_Many_dot by blast
  then show ?thesis
    unfolding seq_Cons seq_Nil lang_Cat_lit by blast
qed

lemma test_braces:
  "test (Whole (seq [lit ''{{'', Many dot, lit ''}}''])) t \<longleftrightarrow>
     (\<exists>m. t = ''{{'' @ m @ ''}}'' \<and> set m \<inter> set lineTerminators = {})"
  unfolding test_Whole lang_braces by blast

lemma test_version:
  assumes "t = major @ ''.'' @ minor @ rest"
    and "major \<noteq> []" and "set major \<subseteq> set d09"
    and "minor \<noteq> []" and "set minor \<subseteq> set d09"
  shows "test (Starts (seq [Some1 (OneOf d09), lit ''.'', Some1 (OneOf d09),
                            Maybe (seq [lit ''.'', Some1 (OneOf d09)])])) t"
proof -
  have "major @ ''.'' @ minor @ [] \<in>
          lang (seq [Some1 (OneOf d09), lit ''.'', Some1 (OneOf d09),
                     Maybe (seq [lit ''.'', Some1 (OneOf d09)])])"
    unfolding seq_Cons [of "Some1 (OneOf d09)"] seq_Cons [of "lit ''.''"] seq_Cons [of "Maybe _"]
    using assms(2-5)
    by (intro lang_CatI) (simp_all add: lang_Some1_OneOf lang_lit lang_Maybe seq_Nil)
  moreover have "t = (major @ ''.'' @ minor @ []) @ rest" using assms(1) by simp
  ultimately show ?thesis unfolding test_Starts by blast
qed


section \<open>Properties of the classifier\<close>

lemma codePatterns_member:
  "p \<in> set packagePatterns \<union> set pathPatterns \<union> set identifierPatterns \<union>
       set interpolationPatterns \<union> set technicalStringPatterns \<union> set angularPatterns \<union>
       set constantPatterns \<union> set versionPatterns \<union> set selectorPatterns
   \<Longrightarrow> test p t \<Longrightarrow> list_ex (\<lambda>pattern. test pattern t) codePatterns"
  unfolding list_ex_iff codePatterns_def set_append by blast

lemma patternVerdict_version:
  assumes "t = major @ ''.'' @ minor @ rest"
    and "major \<noteq> []" and "set major \<subseteq> set d09"
    and "minor \<noteq> []" and "set minor \<subseteq> set d09"
  shows "patternVerdict t = False"
proof -
  have "list_ex (\<lambda>pattern. test pattern t) codePatterns"
    by (rule codePatterns_member [OF _ test_version [OF assms]])
       (simp add: versionPatterns_def)
  then show ?thesis by (simp add: patternVerdict_def)
qed

lemma patternVerdict_braces:
  assumes "t = ''{{'' @ m @ ''}}''" and "set m \<inter> set lineTerminators = {}"
  shows "patternVerdict t = False"
proof -
  have "test (Whole (seq [lit ''{{'', Many dot, lit ''}}''])) t"
    unfolding test_braces using assms by blast
  then have "list_ex (\<lambda>pattern. test pattern t) codePatterns"
    by (rule codePatterns_member [rotated]) (simp add: interpolationPatterns_def)
  then show ?thesis by (simp add: patternVerdict_def)
qed

lemma includesStr_trim_interpolation:
  assumes "text = a @ ''${'' @ b @ ''}'' @ c"
  shows "includesStr (trim text) ''${''" and "includesStr (trim text) ''}''"
proof -
  have "sublist ''${'' text"
    unfolding sublist_def using assms by blast
  then have "sublist ''${'' (trim text)"
    by (rule sublist_trim) (simp_all add: whiteSpace_def)
  then show "includesStr (trim text) ''${''" by (simp add: includesStr_sublist)
  have "text = (a @ ''${'' @ b) @ ''}'' @ c" using assms by simp
  then have "sublist ''}'' text"
    unfolding sublist_def by blast
  then have "sublist ''}'' (trim text)"
    by (rule sublist_trim) (simp_all add: whiteSpace_def)
  then show "includesStr (trim text) ''}''" by (simp add: includesStr_sublist)
qed

text \<open>
  C8. Called without a context, \<open>isDisplayText\<close> returns false for
  "https://api.example.com", "userId", "#ffffff", "GET" and "1.2.3", and true for
  "Welcome to our application" and "Click here to continue".
\<close>

theorem isDisplayText_examples:
  "isDisplayText ''https://api.example.com'' None = False \<and>
   isDisplayText ''userId'' None = False \<and>
   isDisplayText ''#ffffff'' None = False \<and>
   isDisplayText ''GET'' None = False \<and>
   isDisplayText ''1.2.3'' None = False \<and>
   isDisplayText ''Welcome to our application'' None = True \<and>
   isDisplayText ''Click here to continue'' None = True"
proof -
  have "isDisplayText ''https://api.example.com'' None = False" by code_simp
  moreover have "isDisplayText ''userId'' None = False" by code_simp
  moreover have "isDisplayText ''#ffffff'' None = False" by code_simp
  moreover have "isDisplayText ''GET'' None = False" by code_simp
  moreover have "isDisplayText ''1.2.3'' None = False" by code_simp
  moreover have "isDisplayText ''Welcome to our application'' None = True" by code_simp
  moreover have "isDisplayText ''Click here to continue'' None = True" by code_simp
  ultimately show ?thesis by blast
qed

text \<open>
  C10. When the trimmed candidate begins with two runs of digits separated by a dot,
  \<open>isDisplayText\<close> without a context returns false, whatever follows: the version
  pattern is anchored at the start of the string only.
\<close>

theorem isDisplayText_version_prefix:
  assumes "trim text = major @ ''.'' @ minor @ rest"
    and "major \<noteq> []" and "set major \<subseteq> set d09"
    and "minor \<noteq> []" and "set minor \<subseteq> set d09"
  shows "isDisplayText text None = False"
  using patternVerdict_version [OF assms]
  by (simp add: isDisplayText_def Let_def)

theorem isDisplayText_version_prefix_witness:
  "trim ''2.5 million users trust us'' = ''2'' @ ''.'' @ ''5'' @ '' million users trust us'' \<and>
   isDisplayText ''2.5 million users trust us'' None = False"
proof -
  have t: "trim ''2.5 million users trust us'' = ''2'' @ ''.'' @ ''5'' @ '' million users trust us''"
    by (simp add: trim_def whiteSpace_def)
  have "isDisplayText ''2.5 million users trust us'' None = False"
    by (rule isDisplayText_version_prefix [OF t]) (simp_all add: d09_def)
  with t show ?thesis by blast
qed

text \<open>
  C6, as the code has it. \<open>isDisplayText\<close> returns false, for every context, when the
  trimmed candidate is a key-like token (only letters, digits, underscores and dots, with
  at least one dot) or the candidate contains \<^verbatim>\<open>${\<close> followed later by
  \<^verbatim>\<open>}\<close>. A double-brace interpolation is rejected only when the whole trimmed
  candidate is \<^verbatim>\<open>{{...}}\<close> on one line, and the context is absent or does not
  mark a thrown error; one inside a longer text is not.
\<close>

theorem isDisplayText_rejects_markers:
  assumes "(trim text \<noteq> [] \<and> set (trim text) \<subseteq> set (az @ AZ @ d09 @ ''_.'') \<and>
              CHR ''.'' \<in> set (trim text)) \<or>
           (\<exists>a b c. text = a @ ''${'' @ b @ ''}'' @ c) \<or>
           ((\<exists>m. trim text = ''{{'' @ m @ ''}}'' \<and> set m \<inter> set lineTerminators = {}) \<and>
            (context = None \<or> (\<exists>cx. context = Some cx \<and> \<not> isThrow cx)))"
  shows "isDisplayText text context = False"
  using assms
proof (elim disjE)
  assume "trim text \<noteq> [] \<and> set (trim text) \<subseteq> set (az @ AZ @ d09 @ ''_.'') \<and>
      CHR ''.'' \<in> set (trim text)"
  then have "looksLikeTranslationKey (trim text)"
    using looksLikeTranslationKey_iff by blast
  then show ?thesis
    by (simp add: isDisplayText_def Let_def)
next
  assume "\<exists>a b c. text = a @ ''${'' @ b @ ''}'' @ c"
  then obtain a b c where "text = a @ ''${'' @ b @ ''}'' @ c" by blast
  then have "includesStr (trim text) ''${''" "includesStr (trim text) ''}''"
    by (rule includesStr_trim_interpolation)+
  then show ?thesis
    by (simp add: isDisplayText_def Let_def)
next
  assume h: "(\<exists>m. trim text = ''{{'' @ m @ ''}}'' \<and> set m \<inter> set lineTerminators = {}) \<and>
      (context = None \<or> (\<exists>cx. context = Some cx \<and> \<not> isThrow cx))"
  then have pv: "patternVerdict (trim text) = False"
    using patternVerdict_braces by blast
  from h consider "context = None" | cx where "context = Some cx" "\<not> isThrow cx" by blast
  then show ?thesis
  proof cases
    case 1
    with pv show ?thesis by (simp add: isDisplayText_def Let_def)
  next
    case 2
    with pv show ?thesis
      by (simp add: isDisplayText_def Let_def contextVerdict_def)
  qed
qed

theorem isDisplayText_rejects_markers_witness:
  "isDisplayText ''app.save_1'' (Some throwContext) = False \<and>
   isDisplayText ''Total: ${count} items'' (Some throwContext) = False \<and>
   isDisplayText ''{{ user.name }}'' None = False"
proof -
  have "trim ''app.save_1'' \<noteq> [] \<and>
      set (trim ''app.save_1'') \<subseteq> set (az @ AZ @ d09 @ ''_.'') \<and>
      CHR ''.'' \<in> set (trim ''app.save_1'')"
    by (simp add: trim_def whiteSpace_def az_def AZ_def d09_def)
  then have k: "isDisplayText ''app.save_1'' (Some throwContext) = False"
    by (intro isDisplayText_rejects_markers disjI1)
  have "''Total: ${count} items'' = ''Total: '' @ ''${'' @ ''count'' @ ''}'' @ '' items''"
    by simp
  then have "\<exists>a b c. ''Total: ${count} items'' = a @ ''${'' @ b @ ''}'' @ c"
    by blast
  then have i: "isDisplayText ''Total: ${count} items'' (Some throwContext) = False"
    by (intro isDisplayText_rejects_markers disjI2 disjI1)
  have "trim ''{{ user.name }}'' = ''{{'' @ '' user.name '' @ ''}}'' \<and>
      set '' user.name '' \<inter> set lineTerminators = {}"
    by (simp add: trim_def whiteSpace_def lineTerminators_def)
  then have "(\<exists>m. trim ''{{ user.name }}'' = ''{{'' @ m @ ''}}'' \<and>
      set m \<inter> set lineTerminators = {}) \<and>
      ((None :: ClassificationContext option) = None \<or>
       (\<exists>cx. (None :: ClassificationContext option) = Some cx \<and> \<not> isThrow cx))"
    by blast
  then have b: "isDisplayText ''{{ user.name }}'' None = False"
    by (rule isDisplayText_rejects_markers [OF disjI2, OF disjI2])
  from k i b show ?thesis by blast
qed

theorem isDisplayText_inner_interpolation_accepted:
  "sublist ''{{name}}'' ''Hello {{name}} welcome'' \<and>
   isDisplayText ''Hello {{name}} welcome'' None = True"
proof -
  have "''Hello {{name}} welcome'' = ''Hello '' @ ''{{name}}'' @ '' welcome''" by simp
  then have "sublist ''{{name}}'' ''Hello {{name}} welcome''"
    unfolding sublist_def by blast
  moreover have "isDisplayText ''Hello {{name}} welcome'' None = True" by code_simp
  ultimately show ?thesis by blast
qed

text \<open>
  C7, as the code has it. For a context that marks a thrown error and no import, require,
  decorator or console call, \<open>isDisplayText\<close> is false when the trimmed candidate is a
  key-like token, contains \<^verbatim>\<open>${\<close> and \<^verbatim>\<open>}\<close>, or matches
  \<^verbatim>\<open>/assets\/i18n\/.*\.json/\<close>; otherwise it is
  \<open>isUserFacingErrorMessage\<close> of the trimmed candidate. That function is true iff no
  pattern of \<open>technicalPatterns\<close> matches, the length exceeds 10, and two lowercase
  letters stand on one line (no line terminator between them).
\<close>

theorem isDisplayText_thrown_error:
  assumes "isThrow cx" and "\<not> isImport cx" and "\<not> isRequire cx"
    and "\<not> isDecorator cx" and "\<not> isComponentDecorator cx" and "\<not> isConsole cx"
  shows "isDisplayText text (Some cx) =
           (if looksLikeTranslationKey (trim text) \<or>
               (sublist ''${'' (trim text) \<and> sublist ''}'' (trim text)) \<or>
               test (Within (seq [lit ''assets/i18n/'', Many dot, lit ''.json''])) (trim text)
            then False
            else isUserFacingErrorMessage (trim text)) \<and>
         (isUserFacingErrorMessage t \<longleftrightarrow>
            \<not> (\<exists>p \<in> set technicalPatterns. test p t) \<and>
            length t > 10 \<and>
            (\<exists>u a m b w. t = u @ [a] @ m @ [b] @ w \<and> a \<in> set az \<and> b \<in> set az \<and>
               set m \<inter> set lineTerminators = {}))"
proof
  have whole: "sublist ''${'' s \<and> sublist ''}'' s"
    if "test (Whole (seq [lit ''${'', Many dot, lit ''}''])) s" for s
  proof -
    from that obtain m where "s = ''${'' @ m @ ''}''"
      unfolding test_Whole seq_Cons seq_Nil lang_Cat_lit lang.simps(5) [of "Many dot"]
      by auto
    then have "s = [] @ ''${'' @ (m @ ''}'')" "s = (''${'' @ m) @ ''}'' @ []" by simp_all
    then show ?thesis unfolding sublist_def by blast
  qed
  show "isDisplayText text (Some cx) =
           (if looksLikeTranslationKey (trim text) \<or>
               (sublist ''${'' (trim text) \<and> sublist ''}'' (trim text)) \<or>
               test (Within (seq [lit ''assets/i18n/'', Many dot, lit ''.json''])) (trim text)
            then False
            else isUserFacingErrorMessage (trim text))"
    using assms whole [of "trim text"]
    by (auto simp: isDisplayText_def Let_def contextVerdict_def includesStr_sublist
             simp del: test.simps)
  show "isUserFacingErrorMessage t \<longleftrightarrow>
            \<not> (\<exists>p \<in> set technicalPatterns. test p t) \<and>
            length t > 10 \<and>
            (\<exists>u a m b w. t = u @ [a] @ m @ [b] @ w \<and> a \<in> set az \<and> b \<in> set az \<and>
               set m \<inter> set lineTerminators = {})"
    unfolding isUserFacingErrorMessage_def test_two_lower list_ex_iff by blast
qed

theorem isDisplayText_thrown_error_witness:
  "isDisplayText ''Please enter a valid email address'' (Some throwContext) = True \<and>
   isUserFacingErrorMessage ''Please enter a valid email address'' = True"
proof -
  have c: "isThrow throwContext" "\<not> isImport throwContext" "\<not> isRequire throwContext"
    "\<not> isDecorator throwContext" "\<not> isComponentDecorator throwContext"
    "\<not> isConsole throwContext"
    by (simp_all add: throwContext_def)
  have u: "isUserFacingErrorMessage ''Please enter a valid email address'' = True"
    by code_simp
  have t: "trim ''Please enter a valid email address'' = ''Please enter a valid email address''"
    by (simp add: trim_def whiteSpace_def)
  have k: "\<not> looksLikeTranslationKey ''Please enter a valid email address''"
    by code_simp
  have s: "\<not> sublist ''${'' ''Please enter a valid email address''"
    unfolding includesStr_sublist [symmetric] by code_simp
  have a: "\<not> test (Within (seq [lit ''assets/i18n/'', Many dot, lit ''.json'']))
                ''Please enter a valid email address''"
    by code_simp
  from isDisplayText_thrown_error [OF c, of "''Please enter a valid email address''"]
  have "isDisplayText ''Please enter a valid email address'' (Some throwContext) =
          isUserFacingErrorMessage ''Please enter a valid email address''"
    unfolding t using k s a by simp
  with u show ?thesis by simp
qed

theorem isDisplayText_thrown_error_counterexample:
  "isDisplayText ''Processing...'' (Some throwContext) = False \<and>
   isUserFacingErrorMessage (trim ''Processing...'') = True"
proof -
  have "isDisplayText ''Processing...'' (Some throwContext) = False" by code_simp
  moreover have "isUserFacingErrorMessage (trim ''Processing...'') = True" by code_simp
  ultimately show ?thesis by blast
qed


section \<open>Properties of the key generator\<close>

lemma digitChar_in_d09: "d < 10 \<Longrightarrow> digitChar d \<in> set d09"
proof -
  assume "d < 10"
  moreover have "length d09 = 10" by (simp add: d09_def)
  ultimately show ?thesis by (simp add: digitChar_def)
qed

lemma digitChar_inj: "a < 10 \<Longrightarrow> b < 10 \<Longrightarrow> digitChar a = digitChar b \<Longrightarrow> a = b"
proof -
  assume "a < 10" "b < 10" "digitChar a = digitChar b"
  moreover have "distinct d09" by (simp add: d09_def)
  moreover have "length d09 = 10" by (simp add: d09_def)
  ultimately show "a = b"
    by (simp add: digitChar_def nth_eq_iff_index_eq)
qed

lemma decimal_digits: "set (decimal n) \<subseteq> set d09"
proof (induction n rule: decimal.induct)
  case (1 n)
  show ?case
  proof (cases "n < 10")
    case True
    then show ?thesis
      using digitChar_in_d09 [of n] by (simp add: decimal.simps [of n])
  next
    case False
    then show ?thesis
      using 1 digitChar_in_d09 [of "n mod 10"] by (simp add: decimal.simps [of n])
  qed
qed

lemma decimal_nonempty: "decimal n \<noteq> []"
  by (simp add: decimal.simps [of n])

lemma decimal_inj: "decimal n = decimal m \<Longrightarrow> n = m"
proof (induction n arbitrary: m rule: decimal.induct)
  case (1 n)
  show ?case
  proof (cases "n < 10")
    case n: True
    show ?thesis
    proof (cases "m < 10")
      case True
      with n "1.prems" show ?thesis
        by (simp add: decimal.simps [of n] decimal.simps [of m] digitChar_inj)
    next
      case False
      with n "1.prems" decimal_nonempty [of "m div 10"] show ?thesis
        by (simp add: decimal.simps [of n] decimal.simps [of m] Cons_eq_append_conv)
    qed
  next
    case n: False
    show ?thesis
    proof (cases "m < 10")
      case True
      with n "1.prems" decimal_nonempty [of "n div 10"] show ?thesis
        by (simp add: decimal.simps [of n] decimal.simps [of m] append_eq_Cons_conv)
    next
      case False
      with n "1.prems" have "decimal (n div 10) = decimal (m div 10)"
        and "digitChar (n mod 10) = digitChar (m mod 10)"
        by (simp_all add: decimal.simps [of n] decimal.simps [of m])
      with n "1.IH" have "n div 10 = m div 10" and "n mod 10 = m mod 10"
        by (simp_all add: digitChar_inj)
      then show ?thesis by (metis div_mult_mod_eq)
    qed
  qed
qed

lemma counterSuffix_key: "counterSuffix (front @ ''_'' @ decimal n) = decimal n"
proof -
  have "c \<noteq> CHR ''_''" if "c \<in> set (rev (decimal n))" for c
    using that decimal_digits [of n] by (auto simp: d09_def)
  then have "takeWhile (\<lambda>c. c \<noteq> CHR ''_'') (rev (decimal n) @ CHR ''_'' # rev front)
      = rev (decimal n) @ takeWhile (\<lambda>c. c \<noteq> CHR ''_'') (CHR ''_'' # rev front)"
    by (rule takeWhile_append2)
  then have "takeWhile (\<lambda>c. c \<noteq> CHR ''_'') (rev (decimal n) @ CHR ''_'' # rev front)
      = rev (decimal n)"
    by simp
  then show ?thesis by (simp add: counterSuffix_def)
qed

lemma generateKey_suffix:
  "generateKey env s text filePath = (key, s') \<Longrightarrow>
     counterSuffix key = decimal (keyCounter s) \<and> keyCounter s' = keyCounter s + 1"
proof -
  assume g: "generateKey env s text filePath = (key, s')"
  have "key = (keyPrefix (options s) @ ''.'' @ contextPart env s filePath @ cleanText text) @
      ''_'' @ decimal (keyCounter s)"
    using g by (auto simp: generateKey_def)
  then have "counterSuffix key = decimal (keyCounter s)"
    by (simp only: counterSuffix_key)
  moreover have "keyCounter s' = keyCounter s + 1"
    using g by (auto simp: generateKey_def)
  ultimately show ?thesis by simp
qed





section \<open>What a run leaves unchanged\<close>

lemma foldl_keeps: "(\<And>a x. g (f a x) = g a) \<Longrightarrow> g (foldl f a xs) = g a"
  by (induction xs arbitrary: a) simp_all

lemma generateKey_options: "options (snd (generateKey env s tx fp)) = options s"
  by (simp add: generateKey_def)

lemma register_options: "options (session (register env st p tx v e)) = options (session st)"
  by (simp add: register_def generateKey_def)

lemma processElement_options:
  "options (session (processElement env tag st pe)) = options (session st)"
  by (cases pe) (simp add: processElement_def Let_def register_options)

lemma contentPass_options: "options (session (contentPass env doc st)) = options (session st)"
  unfolding contentPass_def
  by (rule foldl_keeps, rule foldl_keeps) (rule processElement_options)

lemma extractAttribute_options: "options (fst (extractAttribute env sd pa)) = options (fst sd)"
  by (cases sd; cases pa)
     (simp add: extractAttribute_def generateKey_def split: option.splits)

lemma attributePass_options: "options (fst (attributePass env sd)) = options (fst sd)"
  unfolding attributePass_def
  by (rule foldl_keeps) (rule extractAttribute_options)

lemma tryExtract_cases:
  obtains (unread) message where "readFile (fs w) p = Inl message"
      and "tryExtractFromHtmlTemplate env (s, w) p = (Inl message, setComponentContext env s p, w)"
  | (dry) s2 where "options s2 = options s" and "\<not> replace (options s)"
      and "tryExtractFromHtmlTemplate env (s, w) p = (Inr (), s2, w)"
  | (unwritten) s2 message where "options s2 = options s" and "replace (options s)"
      and "tryExtractFromHtmlTemplate env (s, w) p = (Inl message, s2, w)"
  | (rewritten) s2 content where "options s2 = options s" and "replace (options s)"
      and "writeFile (fs w) p content = Inr (fs w\<lparr>files := (files (fs w))(p \<mapsto> content),
              written := written (fs w) @ [(p, content)]\<rparr>)"
      and "tryExtractFromHtmlTemplate env (s, w) p =
             (Inr (), s2, w\<lparr>fs := fs w\<lparr>files := (files (fs w))(p \<mapsto> content),
                written := written (fs w) @ [(p, content)]\<rparr>\<rparr>)"
proof (cases "readFile (fs w) p")
  case (Inl message)
  then have "tryExtractFromHtmlTemplate env (s, w) p = (Inl message, setComponentContext env s p, w)"
    by (simp add: tryExtractFromHtmlTemplate_def Let_def)
  with Inl show ?thesis by (rule unread)
next
  case (Inr content)
  define st where "st = contentPass env (cheerio_load env content)
      \<lparr>session = setComponentContext env s p, modifications = [], processedElements = []\<rparr>"
  obtain s2 doc2 where a: "attributePass env (session st, cheerio_load env content) = (s2, doc2)"
    by (cases "attributePass env (session st, cheerio_load env content)")
  have "options (session st) = options s"
    unfolding st_def by (simp add: contentPass_options setComponentContext_def)
  moreover have "options s2 = options (session st)"
    using attributePass_options [of env "(session st, cheerio_load env content)"] a by simp
  ultimately have o: "options s2 = options s" by simp
  define h where "h = restoreDirectiveCase (stripWrapper (cheerio_html env
      (foldl (applyModification env) doc2 (modifications st))))"
  show ?thesis
  proof (cases "replace (options s)")
    case False
    with Inr a o have "tryExtractFromHtmlTemplate env (s, w) p = (Inr (), s2, w)"
      by (simp add: tryExtractFromHtmlTemplate_def Let_def st_def [symmetric])
    with o False show ?thesis by (rule dry)
  next
    case True
    show ?thesis
    proof (cases "writeFails (fs w) p")
      case (Some message)
      with Inr a o True have "tryExtractFromHtmlTemplate env (s, w) p = (Inl message, s2, w)"
        by (simp add: tryExtractFromHtmlTemplate_def Let_def st_def [symmetric] writeFile_def)
      with o True show ?thesis by (rule unwritten)
    next
      case None
      then have wf: "writeFile (fs w) p h = Inr (fs w\<lparr>files := (files (fs w))(p \<mapsto> h),
              written := written (fs w) @ [(p, h)]\<rparr>)"
        by (simp add: writeFile_def)
      with Inr a o True have "tryExtractFromHtmlTemplate env (s, w) p =
             (Inr (), s2, w\<lparr>fs := fs w\<lparr>files := (files (fs w))(p \<mapsto> h),
                written := written (fs w) @ [(p, h)]\<rparr>\<rparr>)"
        by (simp add: tryExtractFromHtmlTemplate_def Let_def st_def [symmetric] h_def [symmetric])
      with o True wf show ?thesis by (rule rewritten)
    qed
  qed
qed

lemma tryExtract_options:
  "options (fst (snd (tryExtractFromHtmlTemplate env (s, w) p))) = options s"
  by (cases rule: tryExtract_cases [of w p env s]) (simp_all add: setComponentContext_def)

lemma tryExtract_dry:
  assumes "\<not> replace (options s)"
  shows "snd (snd (tryExtractFromHtmlTemplate env (s, w) p)) = w"
  using assms by (cases rule: tryExtract_cases [of w p env s]) simp_all

lemma extractFromHtmlTemplate_returns: "fst (extractFromHtmlTemplate env sw p) = Inr ()"
  by (simp add: extractFromHtmlTemplate_def split: prod.splits sum.splits)

lemma extractFromHtmlTemplate_options:
  "options (fst (snd (extractFromHtmlTemplate env (s, w) p))) = options s"
  using tryExtract_options [of env s w p]
  by (auto simp: extractFromHtmlTemplate_def split: prod.splits sum.splits)

lemma extractFromHtmlTemplate_dry:
  assumes "\<not> replace (options s)"
  shows "fs (snd (snd (extractFromHtmlTemplate env (s, w) p))) = fs w"
  using tryExtract_dry [OF assms, of env w p]
  by (auto simp: extractFromHtmlTemplate_def split: prod.splits sum.splits)

lemma processHtmlFiles_dry:
  assumes "\<not> replace (options s)"
  shows "fs (snd (snd (processHtmlFiles env dir (s, w) fl))) = fs w \<and>
         options (fst (snd (processHtmlFiles env dir (s, w) fl))) = options s"
  using assms
proof (induction fl arbitrary: s w)
  case Nil
  show ?case by simp
next
  case (Cons name rest)
  obtain r s' w' where e: "extractFromHtmlTemplate env (s, w) (path_join env dir name) = (r, s', w')"
    by (cases "extractFromHtmlTemplate env (s, w) (path_join env dir name)")
  have r: "r = Inr ()"
    using extractFromHtmlTemplate_returns [of env "(s, w)" "path_join env dir name"] e by simp
  have o: "options s' = options s"
    using extractFromHtmlTemplate_options [of env s w "path_join env dir name"] e by simp
  have f: "fs w' = fs w"
    using extractFromHtmlTemplate_dry [OF Cons.prems, of env w "path_join env dir name"] e by simp
  from Cons.prems o have "\<not> replace (options s')" by simp
  from Cons.IH [OF this, of w'] e r o f show ?case by simp
qed

lemma processHtmlFiles_returns: "fst (processHtmlFiles env dir sw fl) = Inr ()"
proof (induction fl arbitrary: sw)
  case Nil
  show ?case by simp
next
  case (Cons name rest)
  obtain r sw' where e: "extractFromHtmlTemplate env sw (path_join env dir name) = (r, sw')"
    by (cases "extractFromHtmlTemplate env sw (path_join env dir name)")
  then have "r = Inr ()"
    using extractFromHtmlTemplate_returns [of env sw "path_join env dir name"] by simp
  with e Cons.IH [of sw'] show ?case by simp
qed

text \<open>
  C5. A run with \<open>replace\<close> off writes no source file: after the run every file other
  than the output artifact has the content it had before, and the only call of
  \<^verbatim>\<open>fs.writeFile\<close>, if any, writes the output artifact.
\<close>

theorem extractTexts_dry_run:
  assumes "\<not> replace opts"
  shows "(\<forall>p. p \<noteq> outputPath opts \<longrightarrow>
            files (fs (snd (snd (extractTexts env opts w)))) p = files (fs w) p) \<and>
         (written (fs (snd (snd (extractTexts env opts w)))) = written (fs w) \<or>
          (\<exists>content. written (fs (snd (snd (extractTexts env opts w)))) =
             written (fs w) @ [(outputPath opts, content)]))"
proof -
  let ?s = "newTextExtractor opts"
  let ?w1 = "w\<lparr>console := console w @ [FoundHtmlFiles (length (glob_sync env (fs w) (srcPath opts)))]\<rparr>"
  let ?d = "processHtmlFiles env (srcPath opts) (?s, ?w1) (glob_sync env (fs w) (srcPath opts))"
  have n: "\<not> replace (options ?s)" using assms by (simp add: newTextExtractor_def)
  obtain r s' w' where d: "?d = (r, s', w')" by (cases ?d)
  have f: "fs w' = fs w"
    using processHtmlFiles_dry [OF n, of env "srcPath opts" ?w1
        "glob_sync env (fs w) (srcPath opts)"] d by simp
  have r: "r = Inr ()"
    using processHtmlFiles_returns [of env "srcPath opts" "(?s, ?w1)"
        "glob_sync env (fs w) (srcPath opts)"] d by simp
  have x: "extractTexts env opts w = saveToJSON env (s', w') (outputPath opts)"
    using d r by (simp add: extractTexts_def extractFromDirectory_def Let_def)
  show ?thesis
    unfolding x using f
    by (auto simp: saveToJSON_def writeFile_def split: sum.splits option.splits)
qed

theorem extractTexts_dry_run_witness:
  "files (fs (snd (snd (extractTexts exampleEnv (exampleOptions False) (exampleWorld welcomeMarkup)))))
      ''/project/src/app.component.html'' = Some welcomeMarkup \<and>
   map fst (written (fs (snd (snd (extractTexts exampleEnv (exampleOptions False)
      (exampleWorld welcomeMarkup)))))) = [''/project/i18n/messages.json'']"
proof -
  have n: "\<not> replace (exampleOptions False)" by (simp add: exampleOptions_def)
  have o: "outputPath (exampleOptions False) = ''/project/i18n/messages.json''"
    by (simp add: exampleOptions_def)
  have w: "written (fs (exampleWorld welcomeMarkup)) = []"
    "files (fs (exampleWorld welcomeMarkup)) ''/project/src/app.component.html'' = Some welcomeMarkup"
    by (simp_all add: exampleWorld_def)
  have m: "map fst (written (fs (snd (snd (extractTexts exampleEnv (exampleOptions False)
      (exampleWorld welcomeMarkup)))))) = [''/project/i18n/messages.json'']"
    by code_simp
  from extractTexts_dry_run [OF n, of exampleEnv "exampleWorld welcomeMarkup"] o w
  have "files (fs (snd (snd (extractTexts exampleEnv (exampleOptions False)
      (exampleWorld welcomeMarkup))))) ''/project/src/app.component.html'' = Some welcomeMarkup"
    by simp
  with m show ?thesis by blast
qed


section \<open>Properties of the markup extractor\<close>

lemma map_of_mapSet: "map_of (mapSet k v m) k = Some v"
proof (cases "k \<in> fst ` set m")
  case False
  then have "map_of m k = None" by (simp add: map_of_eq_None_iff)
  with False show ?thesis
    by (simp add: mapSet_def map_add_def)
next
  case True
  have "k \<in> fst ` set xs \<Longrightarrow>
      map_of (map (\<lambda>(k', v'). if k' = k then (k', v) else (k', v')) xs) k = Some v" for xs
    by (induction xs) auto
  with True show ?thesis by (simp add: mapSet_def)
qed

lemma isExcluded_iff:
  "isExcluded v \<longleftrightarrow>
     length (trim v) < 2 \<or> set (trim v) \<subseteq> set (d09 @ whiteSpace @ ''-_.,;:!?()[]{}'')"
proof -
  define t where "t = trim v"
  define cs where "cs = d09 @ whiteSpace @ ''-_.,;:!?()[]{}''"
  have a: "test (Whole (Many (OneOf whiteSpace))) t \<longleftrightarrow> set t \<subseteq> set whiteSpace"
    by (simp only: test.simps accepts_lang lang_Many_OneOf mem_Collect_eq)
  have b: "test (Whole (Some1 (OneOf cs))) t \<longleftrightarrow> t \<noteq> [] \<and> set t \<subseteq> set cs"
    by (rule test_key_chars)
  have c: "set whiteSpace \<subseteq> set cs"
    unfolding cs_def by (simp only: set_append) blast
  have "isExcluded v \<longleftrightarrow>
      length t = 0 \<or> length t < 2 \<or> test (Whole (Many (OneOf whiteSpace))) t \<or>
      test (Whole (Some1 (OneOf cs))) t"
    by (simp only: isExcluded_def Let_def t_def cs_def)
  also have "\<dots> \<longleftrightarrow> length t < 2 \<or> set t \<subseteq> set cs"
    unfolding a b using c by (cases t) auto
  finally show ?thesis by (simp only: t_def cs_def)
qed

text \<open>
  One visit of the attribute loop: the value is taken, under a key of its own, iff
  \<open>isExcluded\<close> does not exclude it and it has none of the four markers.
\<close>

lemma extractAttribute_iff:
  assumes "attr doc p name = Some v"
  shows "(keyCounter (fst (extractAttribute env (s, doc) (p, name))) = keyCounter s + 1 \<longleftrightarrow>
            2 \<le> length (trim v) \<and>
            \<not> set (trim v) \<subseteq> set (d09 @ whiteSpace @ ''-_.,;:!?()[]{}'') \<and>
            \<not> sublist ''{{'' v \<and> \<not> sublist ''}}'' v \<and> \<not> sublist ''['' v \<and> \<not> sublist ''('' v) \<and>
         (keyCounter (fst (extractAttribute env (s, doc) (p, name))) = keyCounter s + 1 \<longrightarrow>
            map_of (extractedTexts (fst (extractAttribute env (s, doc) (p, name))))
              (fst (generateKey env s v None)) = Some v) \<and>
         (keyCounter (fst (extractAttribute env (s, doc) (p, name))) \<noteq> keyCounter s + 1 \<longrightarrow>
            extractAttribute env (s, doc) (p, name) = (s, doc))"
proof -
  have e: "v \<noteq> [] \<and> trim v \<noteq> []" if "\<not> isExcluded v"
  proof -
    from that have "2 \<le> length (trim v)"
      unfolding isExcluded_iff by simp
    then have "trim v \<noteq> []" by auto
    moreover from this have "v \<noteq> []" by (auto simp: trim_def)
    ultimately show ?thesis by simp
  qed
  show ?thesis
  proof (cases "\<not> isExcluded v \<and> \<not> sublist ''{{'' v \<and> \<not> sublist ''}}'' v \<and>
      \<not> sublist ''['' v \<and> \<not> sublist ''('' v")
    case True
    with e have "extractAttribute env (s, doc) (p, name) =
        ((snd (generateKey env s v None))
           \<lparr>extractedTexts := mapSet (fst (generateKey env s v None)) v
              (extractedTexts (snd (generateKey env s v None)))\<rparr>,
         if replace (options (snd (generateKey env s v None)))
         then updateNodes p (setAttr name (placeholder (fst (generateKey env s v None)))) doc
         else doc)"
      using assms
      by (simp add: extractAttribute_def includesStr_sublist split: prod.splits)
    moreover have "keyCounter (snd (generateKey env s v None)) = keyCounter s + 1"
      by (simp add: generateKey_def)
    ultimately show ?thesis
      using True by (simp add: map_of_mapSet isExcluded_iff not_less)
  next
    case False
    then have "extractAttribute env (s, doc) (p, name) = (s, doc)"
      using assms by (auto simp: extractAttribute_def includesStr_sublist)
    then show ?thesis
      using False by (auto simp: isExcluded_iff not_less)
  qed
qed

theorem attribute_identifier_extracted:
  "isDisplayText ''userId'' None = False \<and>
   extractedTexts (fst (snd identifierRun)) = [(''app.app.userid_1'', ''userId'')]"
proof -
  have "isDisplayText ''userId'' None = False" by code_simp
  moreover have "extractedTexts (fst (snd identifierRun)) = [(''app.app.userid_1'', ''userId'')]"
    by code_simp
  ultimately show ?thesis by blast
qed

text \<open>
  C4 fails on the code. With \<open>replace\<close> on, a markup file in which nothing is extracted is
  written all the same, and what is written differs from what was read: here the lower-case
  \<^verbatim>\<open>routerlink=\<close> comes back as \<^verbatim>\<open>routerLink=\<close>.
\<close>

theorem extractFromHtmlTemplate_rewrites_untouched_file:
  "extractedTexts (fst (snd untouchedRun)) = [] \<and>
   files (fs (exampleWorld routerMarkup)) markupPath = Some routerMarkup \<and>
   written (fs (snd (snd untouchedRun))) =
     [(markupPath, ''<a routerLink='' @ [CHR 0x22] @ ''/home'' @ [CHR 0x22] @ ''></a>'')] \<and>
   files (fs (snd (snd untouchedRun))) markupPath \<noteq> Some routerMarkup"
proof -
  have "extractedTexts (fst (snd untouchedRun)) = []" by code_simp
  moreover have "files (fs (exampleWorld routerMarkup)) markupPath = Some routerMarkup"
    by (simp add: exampleWorld_def markupPath_def)
  moreover have "written (fs (snd (snd untouchedRun))) =
     [(markupPath, ''<a routerLink='' @ [CHR 0x22] @ ''/home'' @ [CHR 0x22] @ ''></a>'')]"
    by code_simp
  moreover have "files (fs (snd (snd untouchedRun))) markupPath \<noteq> Some routerMarkup"
    by code_simp
  ultimately show ?thesis by blast
qed

text \<open>
  C1 fails on the code: the session of the scenario registers one text, the one of the
  markup file. The component file is never read.
\<close>

theorem welcomeRun_one_text:
  "fst welcomeRun = Inr () \<and>
   out_translations (buildOutput exampleEnv (fst (snd welcomeRun))) =
     [(''app.app.welcome_to_our_app_1'', ''Welcome to our app'')] \<and>
   totalTexts (out_metadata (buildOutput exampleEnv (fst (snd welcomeRun)))) = 1 \<and>
   map fst (written (fs (snd (snd welcomeRun)))) = [''/project/i18n/messages.json'']"
proof -
  have "fst welcomeRun = Inr ()" by code_simp
  moreover have "out_translations (buildOutput exampleEnv (fst (snd welcomeRun))) =
     [(''app.app.welcome_to_our_app_1'', ''Welcome to our app'')]" by code_simp
  moreover have "totalTexts (out_metadata (buildOutput exampleEnv (fst (snd welcomeRun)))) = 1"
    by code_simp
  moreover have "map fst (written (fs (snd (snd welcomeRun)))) = [''/project/i18n/messages.json'']"
    by code_simp
  ultimately show ?thesis by blast
qed


section \<open>The end-to-end scenario\<close>

lemma welcome_text_facts:
  "trim ''Welcome to our app'' = ''Welcome to our app''"
  "isExcluded ''Welcome to our app'' = False"
  "looksTranslated ''Welcome to our app'' = False"
  "includesStr ''Welcome to our app'' ''{{'' = False"
  "cleanText ''Welcome to our app'' = ''welcome_to_our_app''"
  "decimal 1 = ''1''"
  "decimal (Suc 0) = ''1''"
  by code_simp+

lemma foldl_middle: "foldl f a (xs @ y # ys) = foldl f (f (foldl f a xs) y) ys"
  by simp

lemma welcome_elements:
  "allElements (wrapped [Element ''h1'' [] [Text ''Welcome to our app'']]) =
     [([0], Element ''html'' [] [Element ''head'' [] [],
              Element ''body'' [] [Element ''h1'' [] [Text ''Welcome to our app'']]]),
      ([0, 0], Element ''head'' [] []),
      ([0, 1], Element ''body'' [] [Element ''h1'' [] [Text ''Welcome to our app'']]),
      ([0, 1, 0], Element ''h1'' [] [Text ''Welcome to our app''])]"
  by (simp add: allElements_def wrapped_def)

lemma welcome_contentPass:
  assumes "\<not> replace (options s)"
  shows "session (contentPass env (wrapped [Element ''h1'' [] [Text ''Welcome to our app'']])
           \<lparr>session = s, modifications = [], processedElements = []\<rparr>) =
         (snd (generateKey env s ''Welcome to our app'' None))
           \<lparr>extractedTexts := mapSet (fst (generateKey env s ''Welcome to our app'' None))
              ''Welcome to our app'' (extractedTexts s)\<rparr>"
proof -
  let ?doc = "wrapped [Element ''h1'' [] [Text ''Welcome to our app'']]"
  let ?st = "\<lparr>session = s, modifications = [], processedElements = []\<rparr>"
  let ?h1 = "Element ''h1'' [] [Text ''Welcome to our app'']"
  have sel: "selectTag tag ?doc = (if tag = ''h1'' then [([0, 1, 0], ?h1)] else [])"
    if "tag \<in> set contentElements" for tag
    using that unfolding selectTag_def welcome_elements
    by (auto simp: contentElements_def)
  have other: "foldl (\<lambda>st tag. foldl (processElement env tag) st (selectTag tag ?doc)) st tags = st"
    if "set tags \<subseteq> set contentElements" "''h1'' \<notin> set tags" for st tags
    using that
  proof (induction tags arbitrary: st)
    case Nil
    show ?case by simp
  next
    case (Cons tag tags)
    then have "selectTag tag ?doc = []" using sel [of tag] by auto
    with Cons show ?case by simp
  qed
  have split: "contentElements = [''button'', ''a'', ''label''] @ ''h1'' #
      [''h2'', ''h3'', ''h4'', ''h5'', ''h6'', ''p'', ''li'', ''td'', ''th'', ''span'', ''strong'',
       ''em'', ''b'', ''i'']"
    by (simp add: contentElements_def)
  have before: "foldl (\<lambda>st tag. foldl (processElement env tag) st (selectTag tag ?doc)) ?st
      [''button'', ''a'', ''label''] = ?st"
    by (rule other) (simp_all add: contentElements_def)
  have h1: "foldl (processElement env ''h1'') ?st (selectTag ''h1'' ?doc) =
      processElement env ''h1'' ?st ([0, 1, 0], ?h1)"
    using sel [of "''h1''"] by (simp add: contentElements_def)
  have after: "foldl (\<lambda>st tag. foldl (processElement env tag) st (selectTag tag ?doc)) st
      [''h2'', ''h3'', ''h4'', ''h5'', ''h6'', ''p'', ''li'', ''td'', ''th'', ''span'', ''strong'',
       ''em'', ''b'', ''i''] = st" for st
    by (rule other) (simp_all add: contentElements_def)
  have "contentPass env ?doc ?st =
      foldl (\<lambda>st tag. foldl (processElement env tag) st (selectTag tag ?doc)) ?st
        ([''button'', ''a'', ''label''] @ ''h1'' #
         [''h2'', ''h3'', ''h4'', ''h5'', ''h6'', ''p'', ''li'', ''td'', ''th'', ''span'', ''strong'',
          ''em'', ''b'', ''i''])"
    by (simp only: contentPass_def split)
  also have "\<dots> = foldl (processElement env ''h1'') ?st (selectTag ''h1'' ?doc)"
    by (simp only: foldl_middle before after)
  also have "\<dots> = processElement env ''h1'' ?st ([0, 1, 0], ?h1)"
    by (rule h1)
  finally have "contentPass env ?doc ?st = processElement env ''h1'' ?st ([0, 1, 0], ?h1)" .
  moreover have "session (processElement env ''h1'' ?st ([0, 1, 0], ?h1)) =
      (snd (generateKey env s ''Welcome to our app'' None))
        \<lparr>extractedTexts := mapSet (fst (generateKey env s ''Welcome to our app'' None))
           ''Welcome to our app'' (extractedTexts s)\<rparr>"
    using assms
    by (simp add: processElement_def welcome_text_facts findAll_def hasAngularDirectives_def
          register_def generateKey_def Let_def)
  ultimately show ?thesis by simp
qed

lemma welcome_attributePass:
  "attributePass env (s, wrapped [Element ''h1'' [] [Text ''Welcome to our app'']]) =
     (s, wrapped [Element ''h1'' [] [Text ''Welcome to our app'']])"
proof -
  let ?doc = "wrapped [Element ''h1'' [] [Text ''Welcome to our app'']]"
  have none: "attr ?doc p name = None" if "p \<in> fst ` set (allElements ?doc)" for p name
    using that unfolding welcome_elements by (auto simp: attr_def wrapped_def)
  have "foldl (extractAttribute env) (s, ?doc) pairs = (s, ?doc)"
    if "fst ` set pairs \<subseteq> fst ` set (allElements ?doc)" for pairs
    using that
  proof (induction pairs)
    case Nil
    show ?case by simp
  next
    case (Cons pa pairs)
    obtain p name where pa: "pa = (p, name)" by (cases pa)
    with Cons.prems have "attr ?doc p name = None" by (intro none) auto
    then have "extractAttribute env (s, ?doc) pa = (s, ?doc)"
      by (simp add: extractAttribute_def pa)
    with Cons show ?case by simp
  qed
  then show ?thesis
    unfolding attributePass_def attributeSites_def
    by (rule meta_mp) (auto simp: welcome_elements)
qed

text \<open>
  C1, as the code has it. When the source directory holds one markup file, read as
  \<^verbatim>\<open><h1>Welcome to our app</h1>\<close>, a session with \<open>keyPrefix\<close> \<^verbatim>\<open>app\<close> and
  \<open>replace\<close> off returns normally and writes an artifact whose translations hold exactly
  one key, mapped to "Welcome to our app", with \<open>totalTexts\<close> 1, whatever other files the
  directory holds: component files are not processed.
\<close>

theorem extractTexts_welcome:
  assumes "keyPrefix opts = ''app''" and "\<not> replace opts"
    and "glob_sync env (fs w) (srcPath opts) = [name]"
    and "readFile (fs w) (path_join env (srcPath opts) name) = Inr content"
    and "cheerio_load env content = wrapped [Element ''h1'' [] [Text ''Welcome to our app'']]"
    and "mkdirFails (fs w) (path_dirname env (outputPath opts)) = None"
    and "writeFails (fs w) (outputPath opts) = None"
  shows "fst (extractTexts env opts w) = Inr () \<and>
         out_translations (buildOutput env (fst (snd (extractTexts env opts w)))) =
           [(''app.'' @
             contextPart env (setComponentContext env (newTextExtractor opts)
               (path_join env (srcPath opts) name)) None @
             ''welcome_to_our_app_1'', ''Welcome to our app'')] \<and>
         totalTexts (out_metadata (buildOutput env (fst (snd (extractTexts env opts w))))) = 1 \<and>
         files (fs (snd (snd (extractTexts env opts w)))) (outputPath opts) =
           Some (json_stringify env (buildOutput env (fst (snd (extractTexts env opts w)))))"
proof -
  let ?p = "path_join env (srcPath opts) name"
  let ?s1 = "setComponentContext env (newTextExtractor opts) ?p"
  let ?k = "''app.'' @ contextPart env ?s1 None @ ''welcome_to_our_app_1''"
  let ?s2 = "?s1\<lparr>keyCounter := 2, extractedTexts := [(?k, ''Welcome to our app'')]\<rparr>"
  let ?w1 = "w\<lparr>console := console w @ [FoundHtmlFiles 1]\<rparr>"
  have n: "\<not> replace (options ?s1)"
    using assms(2) by (simp add: setComponentContext_def newTextExtractor_def)
  have g: "generateKey env ?s1 ''Welcome to our app'' None = (?k, ?s1\<lparr>keyCounter := 2\<rparr>)"
    using assms(1)
    by (simp add: generateKey_def welcome_text_facts setComponentContext_def newTextExtractor_def)
  have c: "session (contentPass env (wrapped [Element ''h1'' [] [Text ''Welcome to our app'']])
      \<lparr>session = ?s1, modifications = [], processedElements = []\<rparr>) = ?s2"
    unfolding welcome_contentPass [OF n] g
    by (simp add: mapSet_def setComponentContext_def newTextExtractor_def)
  have r: "readFile (fs ?w1) ?p = Inr content"
    using assms(4) by simp
  have n2: "\<not> replace (options ?s2)"
    using n by simp
  have t: "tryExtractFromHtmlTemplate env (newTextExtractor opts, ?w1) ?p = (Inr (), ?s2, ?w1)"
    by (simp only: tryExtractFromHtmlTemplate_def prod.case Let_def r sum.case assms(5) c
          welcome_attributePass n2 if_False)
  have d: "extractFromDirectory env (newTextExtractor opts, w) (srcPath opts) = (Inr (), ?s2, ?w1)"
    using t by (simp add: extractFromDirectory_def Let_def assms(3) extractFromHtmlTemplate_def)
  have x: "extractTexts env opts w =
      (Inr (), ?s2,
       ?w1\<lparr>fs := (fs w)\<lparr>files := (files (fs w))(outputPath opts \<mapsto>
                 json_stringify env (buildOutput env ?s2)),
               written := written (fs w) @
                 [(outputPath opts, json_stringify env (buildOutput env ?s2))]\<rparr>,
           console := console ?w1 @ [SavedTranslations 1 (outputPath opts)]\<rparr>)"
    using assms(6,7)
    by (simp add: extractTexts_def d saveToJSON_def mkdir_def writeFile_def)
  show ?thesis
    unfolding x by (simp add: buildOutput_def)
qed

theorem extractTexts_welcome_witness:
  "fst welcomeRun = Inr () \<and>
   totalTexts (out_metadata (buildOutput exampleEnv (fst (snd welcomeRun)))) = 1"
proof -
  have "keyPrefix (exampleOptions False) = ''app''" "\<not> replace (exampleOptions False)"
    "glob_sync exampleEnv (fs (exampleWorld welcomeMarkup)) (srcPath (exampleOptions False)) =
       [''app.component.html'']"
    "readFile (fs (exampleWorld welcomeMarkup))
       (path_join exampleEnv (srcPath (exampleOptions False)) ''app.component.html'') =
       Inr welcomeMarkup"
    "cheerio_load exampleEnv welcomeMarkup =
       wrapped [Element ''h1'' [] [Text ''Welcome to our app'']]"
    "mkdirFails (fs (exampleWorld welcomeMarkup))
       (path_dirname exampleEnv (outputPath (exampleOptions False))) = None"
    "writeFails (fs (exampleWorld welcomeMarkup)) (outputPath (exampleOptions False)) = None"
    by (simp_all add: exampleOptions_def exampleEnv_def exampleWorld_def readFile_def
          exampleLoad_def)
  from extractTexts_welcome [OF this] show ?thesis
    by (simp add: welcomeRun_def)
qed


section \<open>The attribute pass over a document\<close>

lemma mapSet_fresh: "k \<notin> fst ` set m \<Longrightarrow> mapSet k v m = m @ [(k, v)]"
  by (simp add: mapSet_def)

lemma generateKey_fresh:
  assumes "keysBelow s"
  shows "fst (generateKey env s tx fp) \<notin> fst ` set (extractedTexts s)"
proof
  let ?k = "fst (generateKey env s tx fp)"
  assume "?k \<in> fst ` set (extractedTexts s)"
  with assms obtain n where n: "n < keyCounter s" "counterSuffix ?k = decimal n"
    unfolding keysBelow_def by blast
  have "counterSuffix ?k = decimal (keyCounter s)"
    using generateKey_suffix [of env s tx fp ?k "snd (generateKey env s tx fp)"] by simp
  with n have "n = keyCounter s" using decimal_inj by simp
  with n show False by simp
qed

lemma keysBelow_store:
  assumes "keysBelow s"
  shows "keysBelow ((snd (generateKey env s tx fp))
           \<lparr>extractedTexts := extractedTexts s @ [(fst (generateKey env s tx fp), v)]\<rparr>)"
proof -
  have c: "keyCounter (snd (generateKey env s tx fp)) = keyCounter s + 1"
    by (simp add: generateKey_def)
  have k: "counterSuffix (fst (generateKey env s tx fp)) = decimal (keyCounter s)"
    using generateKey_suffix [of env s tx fp "fst (generateKey env s tx fp)"
        "snd (generateKey env s tx fp)"] by simp
  show ?thesis
    unfolding keysBelow_def
  proof
    fix key
    assume "key \<in> fst ` set (extractedTexts ((snd (generateKey env s tx fp))
           \<lparr>extractedTexts := extractedTexts s @ [(fst (generateKey env s tx fp), v)]\<rparr>))"
    then consider "key \<in> fst ` set (extractedTexts s)" | "key = fst (generateKey env s tx fp)"
      by auto
    then show "\<exists>n < keyCounter ((snd (generateKey env s tx fp))
           \<lparr>extractedTexts := extractedTexts s @ [(fst (generateKey env s tx fp), v)]\<rparr>).
        counterSuffix key = decimal n"
    proof cases
      case 1
      with assms obtain n where "n < keyCounter s" "counterSuffix key = decimal n"
        unfolding keysBelow_def by blast
      with c show ?thesis by (intro exI [of _ n]) simp
    next
      case 2
      with k c show ?thesis by (intro exI [of _ "keyCounter s"]) simp
    qed
  qed
qed

lemma map_of_mapSet_other: "a \<noteq> k \<Longrightarrow> map_of (mapSet k v m) a = map_of m a"
proof -
  assume "a \<noteq> k"
  then have "map_of (map (\<lambda>(k', v'). if k' = k then (k', v) else (k', v')) xs) a = map_of xs a" for xs
    by (induction xs) auto
  with \<open>a \<noteq> k\<close> show ?thesis
    by (simp add: mapSet_def map_add_def split: option.splits)
qed

lemma attr_Nil [simp]: "attr doc [] name = None"
  by (simp add: attr_def)

lemma attr_single:
  "attr doc [i] name =
     (if i < length doc then (case doc ! i of Element tag attrs kids \<Rightarrow> map_of attrs name | _ \<Rightarrow> None)
      else None)"
  by (simp add: attr_def split: node.splits)

lemma attr_deeper:
  "attr doc (i # j # p) name =
     (if i < length doc then (case doc ! i of Element tag attrs kids \<Rightarrow> attr kids (j # p) name | _ \<Rightarrow> None)
      else None)"
  by (simp add: attr_def split: node.splits)

lemma attr_setAttr_elsewhere:
  "q \<noteq> p \<or> n \<noteq> name \<Longrightarrow> attr (updateNodes q (setAttr n x) doc) p name = attr doc p name"
proof (induction q "setAttr n x" doc arbitrary: p rule: updateNodes.induct)
  case (1 ns)
  show ?case by simp
next
  case (2 i ns)
  show ?case
  proof (cases p)
    case Nil
    then show ?thesis by simp
  next
    case (Cons k p')
    show ?thesis
    proof (cases p')
      case Nil
      with Cons 2 show ?thesis
        by (auto simp: attr_single setAttr_def nth_list_update map_of_mapSet_other
                 split: node.splits)
    next
      case (Cons l p'')
      with \<open>p = k # p'\<close> show ?thesis
        by (auto simp: attr_deeper setAttr_def nth_list_update split: node.splits)
    qed
  qed
next
  case (3 i j q' ns)
  show ?case
  proof (cases p)
    case Nil
    then show ?thesis by simp
  next
    case (Cons k p')
    show ?thesis
    proof (cases p')
      case Nil
      with Cons show ?thesis
        by (auto simp: attr_single nth_list_update split: node.splits if_splits)
    next
      case p': (Cons l p'')
      show ?thesis
      proof (cases "i < length ns \<and> k = i")
        case False
        with Cons p' show ?thesis
          by (auto simp: attr_deeper nth_list_update split: node.splits)
      next
        case True
        show ?thesis
        proof (cases "ns ! i")
          case (Element tag attrs kids)
          from 3(2) Cons p' True have "j # q' \<noteq> l # p'' \<or> n \<noteq> name" by auto
          from 3(1) [OF _ Element this] True
          have "attr (updateNodes (j # q') (setAttr n x) kids) (l # p'') name =
              attr kids (l # p'') name" by simp
          with Cons p' True Element show ?thesis
            by (simp add: attr_deeper)
        next
          case (Text t)
          with Cons p' True show ?thesis by (simp add: attr_deeper)
        next
          case (Comment t)
          with Cons p' True show ?thesis by (simp add: attr_deeper)
        qed
      qed
    qed
  qed
qed

lemma extractAttribute_step:
  assumes "keysBelow s" and "attr d p name = attr doc p name"
  shows "keysBelow (fst (extractAttribute env (s, d) (p, name))) \<and>
         map snd (extractedTexts (fst (extractAttribute env (s, d) (p, name)))) =
           map snd (extractedTexts s) @ attributeValues doc (p, name) \<and>
         (\<forall>q n. q \<noteq> p \<or> n \<noteq> name \<longrightarrow>
            attr (snd (extractAttribute env (s, d) (p, name))) q n = attr d q n)"
proof (cases "attr d p name")
  case None
  with assms show ?thesis
    by (simp add: extractAttribute_def attributeValues_def)
next
  case (Some v)
  have e: "v \<noteq> [] \<and> trim v \<noteq> []" if "\<not> isExcluded v"
  proof -
    from that have "2 \<le> length (trim v)"
      unfolding isExcluded_iff by simp
    then have "trim v \<noteq> []" by auto
    moreover from this have "v \<noteq> []" by (auto simp: trim_def)
    ultimately show ?thesis by simp
  qed
  show ?thesis
  proof (cases "\<not> isExcluded v \<and> \<not> sublist ''{{'' v \<and> \<not> sublist ''}}'' v \<and>
      \<not> sublist ''['' v \<and> \<not> sublist ''('' v")
    case False
    with Some have "extractAttribute env (s, d) (p, name) = (s, d)"
      by (auto simp: extractAttribute_def includesStr_sublist)
    moreover from False Some assms(2) have "attributeValues doc (p, name) = []"
      by (auto simp: attributeValues_def isExcluded_iff not_less)
    ultimately show ?thesis using assms(1) by simp
  next
    case True
    obtain k s' where g: "generateKey env s v None = (k, s')"
      by (cases "generateKey env s v None")
    then have x: "extractedTexts s' = extractedTexts s" "options s' = options s"
      by (auto simp: generateKey_def)
    have "k \<notin> fst ` set (extractedTexts s)"
      using generateKey_fresh [OF assms(1), of env v None] g by simp
    then have m: "mapSet k v (extractedTexts s) = extractedTexts s @ [(k, v)]"
      by (rule mapSet_fresh)
    from True e Some have r: "extractAttribute env (s, d) (p, name) =
        (s'\<lparr>extractedTexts := extractedTexts s @ [(k, v)]\<rparr>,
         if replace (options s) then updateNodes p (setAttr name (placeholder k)) d else d)"
      unfolding extractAttribute_def
      by (simp only: prod.case option.case includesStr_sublist g x m simp_thms if_True if_False)
    from True Some assms(2) have a: "attributeValues doc (p, name) = [v]"
      by (simp add: attributeValues_def isExcluded_iff not_less)
    have "keysBelow (s'\<lparr>extractedTexts := extractedTexts s @ [(k, v)]\<rparr>)"
      using keysBelow_store [OF assms(1), of env v None v] g by simp
    moreover have "attr (updateNodes p (setAttr name (placeholder k)) d) q n = attr d q n"
      if "q \<noteq> p \<or> n \<noteq> name" for q n
      using that by (intro attr_setAttr_elsewhere) auto
    ultimately show ?thesis
      unfolding r a by auto
  qed
qed

lemma attribute_fold:
  assumes "distinct pairs" and "keysBelow s"
    and "\<forall>pa \<in> set pairs. attr d (fst pa) (snd pa) = attr doc (fst pa) (snd pa)"
  shows "map snd (extractedTexts (fst (foldl (extractAttribute env) (s, d) pairs))) =
           map snd (extractedTexts s) @ concat (map (attributeValues doc) pairs)"
  using assms
proof (induction pairs arbitrary: s d)
  case Nil
  show ?case by simp
next
  case (Cons pa pairs)
  obtain p name where pa: "pa = (p, name)" by (cases pa)
  obtain s1 d1 where x: "extractAttribute env (s, d) (p, name) = (s1, d1)"
    by (cases "extractAttribute env (s, d) (p, name)")
  from Cons.prems(3) pa have "attr d p name = attr doc p name" by simp
  from extractAttribute_step [OF Cons.prems(2) this, of env] x
  have k: "keysBelow s1"
    and v: "map snd (extractedTexts s1) = map snd (extractedTexts s) @ attributeValues doc (p, name)"
    and o: "\<And>q n. q \<noteq> p \<or> n \<noteq> name \<Longrightarrow> attr d1 q n = attr d q n"
    by simp_all
  have "\<forall>pb \<in> set pairs. attr d1 (fst pb) (snd pb) = attr doc (fst pb) (snd pb)"
  proof
    fix pb
    assume b: "pb \<in> set pairs"
    with Cons.prems(1) pa have "pb \<noteq> (p, name)" by auto
    then have "fst pb \<noteq> p \<or> snd pb \<noteq> name" by (cases pb) auto
    then have "attr d1 (fst pb) (snd pb) = attr d (fst pb) (snd pb)" by (rule o)
    with Cons.prems(3) b show "attr d1 (fst pb) (snd pb) = attr doc (fst pb) (snd pb)" by simp
  qed
  with Cons.IH [of s1 d1] Cons.prems(1) k
  have "map snd (extractedTexts (fst (foldl (extractAttribute env) (s1, d1) pairs))) =
      map snd (extractedTexts s1) @ concat (map (attributeValues doc) pairs)"
    by simp
  with v x pa show ?case by simp
qed

lemma element_positions:
  "distinct (map fst (elementsAt p n)) \<and> (\<forall>q \<in> fst ` set (elementsAt p n). prefix p q)"
  "distinct (map fst (elementsFrom p i ns)) \<and>
     (\<forall>q \<in> fst ` set (elementsFrom p i ns). \<exists>j \<ge> i. prefix (p @ [j]) q)"
proof (induction p n and p i ns rule: elementsAt_elementsFrom.induct)
  case (1 p tag attrs kids)
  have "p \<notin> fst ` set (elementsFrom p 0 kids)"
  proof
    assume "p \<in> fst ` set (elementsFrom p 0 kids)"
    with 1 obtain j where "prefix (p @ [j]) p" by blast
    then show False by (auto simp: prefix_def)
  qed
  moreover have "prefix p q" if "q \<in> fst ` set (elementsFrom p 0 kids)" for q
  proof -
    from that 1 obtain j where "prefix (p @ [j]) q" by blast
    then show ?thesis by (auto simp: prefix_def)
  qed
  ultimately show ?case using 1 by auto
next
  case (2 p s)
  show ?case by simp
next
  case (3 p s)
  show ?case by simp
next
  case (4 p i)
  show ?case by simp
next
  case (5 p i n ns)
  have disj: "fst ` set (elementsAt (p @ [i]) n) \<inter> fst ` set (elementsFrom p (Suc i) ns) = {}"
  proof (rule ccontr)
    assume "fst ` set (elementsAt (p @ [i]) n) \<inter> fst ` set (elementsFrom p (Suc i) ns) \<noteq> {}"
    then obtain q where a: "q \<in> fst ` set (elementsAt (p @ [i]) n)"
      and b: "q \<in> fst ` set (elementsFrom p (Suc i) ns)" by blast
    from a 5 have "prefix (p @ [i]) q" by blast
    moreover from b 5 obtain j where "j \<ge> Suc i" "prefix (p @ [j]) q" by blast
    ultimately have "p @ [i] = p @ [j]"
      by (auto simp: prefix_def append_eq_append_conv)
    with \<open>j \<ge> Suc i\<close> show False by simp
  qed
  have "\<exists>j \<ge> i. prefix (p @ [j]) q"
    if "q \<in> fst ` set (elementsAt (p @ [i]) n @ elementsFrom p (Suc i) ns)" for q
  proof -
    from that consider "q \<in> fst ` set (elementsAt (p @ [i]) n)"
      | "q \<in> fst ` set (elementsFrom p (Suc i) ns)" by auto
    then show ?thesis
    proof cases
      case 1
      with 5 have "prefix (p @ [i]) q" by blast
      then show ?thesis by blast
    next
      case 2
      with 5 obtain j where "j \<ge> Suc i" "prefix (p @ [j]) q" by blast
      then show ?thesis by (intro exI [of _ j]) simp
    qed
  qed
  with 5 disj show ?case by (simp add: image_Un)
qed

lemma attribute_pairs_distinct:
  "distinct (map fst els) \<Longrightarrow>
     distinct (concat (map (\<lambda>(p, el). map (\<lambda>name. (p, name)) attributes) els))"
proof (induction els)
  case Nil
  show ?case by simp
next
  case (Cons pe els)
  obtain p el where pe: "pe = (p, el)" by (cases pe)
  have "distinct (map (\<lambda>name. (p, name)) attributes)"
    by (simp add: attributes_def)
  moreover have "set (map (\<lambda>name. (p, name)) attributes) \<inter>
      set (concat (map (\<lambda>(p, el). map (\<lambda>name. (p, name)) attributes) els)) = {}"
    using Cons.prems pe by (auto simp: image_iff)
  ultimately show ?case using Cons pe by simp
qed

lemma keysBelow_new: "keysBelow (newTextExtractor opts)"
  by (simp add: keysBelow_def newTextExtractor_def)

lemma attributeSites_distinct: "distinct (attributeSites doc)"
  unfolding attributeSites_def allElements_def
  by (rule attribute_pairs_distinct) (simp add: element_positions)

text \<open>
  C3, as the code has it. The texts the attribute pass adds to the session are, in
  document order, the values of the attributes \<^verbatim>\<open>title\<close>, \<^verbatim>\<open>alt\<close>,
  \<^verbatim>\<open>placeholder\<close> and \<^verbatim>\<open>aria-label\<close> of the elements of the document that
  \<open>isExcluded\<close> does not exclude (the trimmed value has two characters or more and is not
  made only of digits, white space and the punctuation \<^verbatim>\<open>-_.,;:!?()[]{}\<close>) and that
  contain none of \<^verbatim>\<open>{{\<close>, \<^verbatim>\<open>}}\<close>, \<^verbatim>\<open>[\<close> and \<^verbatim>\<open>(\<close>: each
  such value goes under a new key, and no other value is taken. \<open>isDisplayText\<close> is not
  consulted. This holds with \<open>replace\<close> on and off.
\<close>

theorem attributePass_extracts:
  assumes "keysBelow s"
  shows "map snd (extractedTexts (fst (attributePass env (s, doc)))) =
           map snd (extractedTexts s) @ concat (map (attributeValues doc) (attributeSites doc)) \<and>
         length (extractedTexts (fst (attributePass env (s, doc)))) =
           length (extractedTexts s) + length (concat (map (attributeValues doc) (attributeSites doc)))"
proof -
  have m: "map snd (extractedTexts (fst (attributePass env (s, doc)))) =
      map snd (extractedTexts s) @ concat (map (attributeValues doc) (attributeSites doc))"
    unfolding attributePass_def snd_conv
    by (rule attribute_fold [OF attributeSites_distinct assms]) simp
  have "length (extractedTexts (fst (attributePass env (s, doc)))) =
      length (map snd (extractedTexts (fst (attributePass env (s, doc)))))"
    by simp
  also have "\<dots> = length (extractedTexts s) +
      length (concat (map (attributeValues doc) (attributeSites doc)))"
    unfolding m by simp
  finally show ?thesis using m by simp
qed

theorem attributePass_extracts_witness:
  "keysBelow (newTextExtractor (exampleOptions True)) \<and>
   concat (map (attributeValues logoDocument) (attributeSites logoDocument)) = [''Company logo''] \<and>
   map snd (extractedTexts (fst (attributePass exampleEnv
      (newTextExtractor (exampleOptions True), logoDocument)))) = [''Company logo'']"
proof -
  have k: "keysBelow (newTextExtractor (exampleOptions True))"
    by (rule keysBelow_new)
  have v: "concat (map (attributeValues logoDocument) (attributeSites logoDocument)) =
      [''Company logo'']"
    by code_simp
  from attributePass_extracts [OF k, of exampleEnv logoDocument] k v show ?thesis
    by (simp add: newTextExtractor_def)
qed


section \<open>What was extracted stays extracted\<close>













end
